theory Spec2Isabelle
  imports Complex_Main "HOL-Library.Sublist" "HOL-Library.Multiset" "HOL-Library.Log_Nat"
begin

section \<open>The backup agent of \<open>src/main.py\<close>\<close>

text \<open>
  The development embeds the tree walker, the batch uploader and the scheduling decision
  of \<open>src/main.py\<close>. The file system, the external upload tool, the clock with its
  time zone, and two functions of the Python runtime (\<open>int\<close> on a string, and whether
  a path can be written in UTF-8) are parameters of the model; the exceptions the code
  can meet on these lines are values. Python's floats are IEEE doubles, given by their
  values. Console output, the quota query and the notification mail are outside the
  model, and so are failures of the operating system on the log file, the list file and
  the last-run file when they are written.
\<close>

subsection \<open>Paths\<close>

text \<open>
  A \<open>pathlib.Path\<close> is represented by its \<open>parts\<close> tuple: \<open>Path('/a/b')\<close> is
  \<open>[''/'', ''a'', ''b'']\<close>, \<open>Path('a/b')\<close> is \<open>[''a'', ''b'']\<close> and \<open>Path('.')\<close> is
  \<open>[]\<close>. Two POSIX paths are equal when their parts are. A part is the sequence of
  bytes of the name, as the file system holds it.
\<close>

type_synonym path = "string list"

definition anchored :: "path \<Rightarrow> bool" where
  "anchored p = (case p of [] \<Rightarrow> False | x # _ \<Rightarrow> x = ''/'' \<or> x = ''//'')"

text \<open>
  \<open>Path.parents\<close>: the logical ancestors, nearest first. An anchored path has
  \<open>len(parts) - 1\<close> of them (the anchor is the last one), a relative path has
  \<open>len(parts)\<close> (the last one is \<open>Path('.')\<close>).
\<close>

definition parents :: "path \<Rightarrow> path list" where
  "parents p = map (\<lambda>n. take n p) (rev [(if anchored p then 1 else 0) ..< length p])"

text \<open>
  Lines 177 to 181: the \<open>for exclude in excludes\<close> loop with its \<open>break\<close>. The result
  is the exclude at which the loop breaks, or \<open>None\<close> when the \<open>else\<close> branch runs.
\<close>

fun find_exclude :: "path list \<Rightarrow> path \<Rightarrow> path option" where
  "find_exclude [] include = None"
| "find_exclude (exclude # excludes) include =
     (if exclude = include \<or> exclude \<in> set (parents include) then Some exclude
      else find_exclude excludes include)"

subsection \<open>Exceptions, the file system, the upload tool and the runtime\<close>

datatype exn =
    FileNotFoundError
  | UnboundLocalError
  | TypeError
  | ValueError
  | OverflowError
  | UnicodeEncodeError
  | CalledProcessError
  | ParseError
  | OSError
  | RuntimeError
  | Other string

text \<open>
  \<open>OSError\<close> stands for the operating system errors other than \<open>FileNotFoundError\<close>
  (\<open>PermissionError\<close>, \<open>NotADirectoryError\<close> and the like), \<open>CalledProcessError\<close> and
  \<open>ParseError\<close> for the failures of the tool and of the parsing of its output;
  \<open>RuntimeError\<close> is what \<open>resolve\<close> raises on a loop of symbolic links, and
  \<open>Other n\<close> is an exception of any other class, \<open>n\<close> being its name.

  The four \<open>Path\<close> methods the walker calls. \<open>Inl\<close> is the exception raised.
\<close>

record filesystem =
  resolve :: "path \<Rightarrow> exn + path"
  is_file :: "path \<Rightarrow> exn + bool"
  is_dir :: "path \<Rightarrow> exn + bool"
  iterdir :: "path \<Rightarrow> exn + path list"

text \<open>
  A parsed \<open><item .../>\<close> element is its attribute dictionary; \<open>item.get(k)\<close> is
  the lookup. The upload tool is \<open>run_util_items\<close> applied to the arguments of line 105:
  given the number of earlier calls of \<open>upload_files\<close> and the paths written to the list
  file, it raises or returns the parsed records.
\<close>

type_synonym item = "string \<rightharpoonup> string"

type_synonym tool = "nat \<Rightarrow> path list \<Rightarrow> exn + item list"

text \<open>
  Two functions of the Python runtime. \<open>int_str\<close> is \<open>int\<close> on a string, \<open>None\<close> for
  \<open>ValueError\<close>; what it accepts (white space, signs, underscores, Unicode digits, a
  bound on the number of digits) differs between versions and is left open.
  \<open>encodable p\<close> says that \<open>str(p)\<close> can be encoded in UTF-8, which line 100 needs: a
  file name whose bytes the file system encoding cannot decode holds surrogate escapes,
  and writing it raises \<open>UnicodeEncodeError\<close>.
\<close>

record python =
  int_str :: "string \<Rightarrow> int option"
  encodable :: "path \<Rightarrow> bool"

subsection \<open>Python's numbers\<close>

text \<open>
  A number is an \<open>int\<close> or a \<open>float\<close>; a float is an IEEE double, given by its value.
  \<open>round_to_double\<close> is the conversion of an \<open>int\<close> to the nearest double, ties to
  the even significand of 53 bits; its result is again an integer.
\<close>

datatype number = PyInt int | PyFloat real

definition round_to_double :: "int \<Rightarrow> int" where
  "round_to_double n =
     (let m = \<bar>n\<bar>; e = bitlen m - 53
      in if e \<le> 0 then n
         else (let q = m div 2 ^ nat e; r = m mod 2 ^ nat e; h = 2 ^ nat (e - 1)
               in sgn n * (if r > h \<or> (r = h \<and> odd q) then q + 1 else q) * 2 ^ nat e))"

text \<open>\<open>size > 1024\<close>, exact on both kinds of number.\<close>

definition gt_1024 :: "number \<Rightarrow> bool" where
  "gt_1024 x = (case x of PyInt n \<Rightarrow> n > 1024 | PyFloat v \<Rightarrow> v > 1024)"

text \<open>
  \<open>size / 1024\<close>. The true division of an \<open>int\<close> is correctly rounded and raises
  \<open>OverflowError\<close> when the rounded quotient is beyond the largest double. The division
  of a double by 1024 is exact; it is applied to values above 1024 only, far from the
  subnormal range.
\<close>

definition div_1024 :: "number \<Rightarrow> exn + number" where
  "div_1024 x =
     (case x of
        PyInt n \<Rightarrow>
          if \<bar>round_to_double n\<bar> \<ge> 2 ^ 1034 then Inl OverflowError
          else Inr (PyFloat (of_int (round_to_double n) / 1024))
      | PyFloat v \<Rightarrow> Inr (PyFloat (v / 1024)))"

text \<open>The nearest integer, ties to the even one.\<close>

definition round_half_even :: "real \<Rightarrow> int" where
  "round_half_even x =
     (let f = \<lfloor>x\<rfloor>; d = x - of_int f
      in if d > 1 / 2 \<or> (d = 1 / 2 \<and> odd f) then f + 1 else f)"

text \<open>
  \<open>'{:.1f}'.format(size)\<close>: the text shows the number to one decimal, correctly rounded,
  and is kept here as the number of tenths it shows. An \<open>int\<close> is converted to a double
  first, which raises \<open>OverflowError\<close> beyond the largest double. The sign that the
  text of a negative number below one tenth keeps is not kept.
\<close>

definition format_1f :: "number \<Rightarrow> exn + int" where
  "format_1f x =
     (case x of
        PyInt n \<Rightarrow>
          if \<bar>round_to_double n\<bar> \<ge> 2 ^ 1024 then Inl OverflowError
          else Inr (10 * round_to_double n)
      | PyFloat v \<Rightarrow> Inr (round_half_even (10 * v)))"

subsection \<open>The state of a run\<close>

text \<open>
  One constructor for each \<open>logfile.write\<close> of \<open>upload_files\<close> and \<open>run_backup\<close>.
  \<open>Transferred t u r f\<close> is the line whose size shows \<open>t\<close> tenths of the unit \<open>u\<close>.
\<close>

datatype event =
    Starting
  | SkipBrokenLink path
  | SkipExcluded path path
  | SkipRemoved path
  | SkipNeither path
  | Transferred int string "string option" "string option"
  | FailedToBackup item
  | FinishedSuccessful int
  | FinishedIncomplete int int

text \<open>
  The globals and the locals of \<open>run_backup\<close>. The work list \<open>includes\<close> is
  \<open>includes_stack\<close> and the local variable \<open>include\<close> is \<open>include_var\<close>, \<open>None\<close>
  while it is unbound. \<open>uploads\<close> lists the batches with which \<open>upload_files\<close> was
  called, in order.
\<close>

record state =
  includes_stack :: "path list"
  include_var :: "path option"
  files :: "path list"
  logfile :: "event list"
  uploads :: "path list list"
  files_considered_for_backup :: int
  files_backed_up_now :: int
  files_already_present :: int
  files_failed_to_backup :: int

text \<open>The locals of \<open>upload_files\<close> that live across iterations of its loop.\<close>

record locals =
  last_total_transfer_size :: int
  transfer_size :: "int option"

subsection \<open>\<open>upload_files\<close>\<close>

text \<open>
  Lines 129 to 142: three tests in sequence, each on the current value and each followed
  by a division that can raise.
\<close>

definition scale_step :: "string \<Rightarrow> number \<times> string \<Rightarrow> exn + number \<times> string" where
  "scale_step unit su =
     (if gt_1024 (fst su)
      then (case div_1024 (fst su) of Inl e \<Rightarrow> Inl e | Inr d \<Rightarrow> Inr (d, unit))
      else Inr su)"

definition scale_size :: "int \<Rightarrow> exn + number \<times> string" where
  "scale_size n =
     (case scale_step ''kB'' (PyInt n, ''B'') of
        Inl e \<Rightarrow> Inl e
      | Inr su1 \<Rightarrow>
          (case scale_step ''MB'' su1 of
             Inl e \<Rightarrow> Inl e
           | Inr su2 \<Rightarrow> scale_step ''GB'' su2))"

text \<open>
  One iteration of the loop of line 114. An exception leaves the counters as they are at
  the raise: \<open>OverflowError\<close> comes after line 126 and before line 145.
\<close>

definition process_item ::
  "python \<Rightarrow> item \<Rightarrow> locals \<times> state \<Rightarrow> exn option \<times> locals \<times> state" where
  "process_item py item ls =
     (case ls of (l, s) \<Rightarrow>
        if item ''per'' \<noteq> Some ''100%'' then (None, l, s)
        else
          (case item ''tottrf_sz'' of
            None \<Rightarrow> (Some TypeError, l, s)
          | Some txt \<Rightarrow>
              (case int_str py txt of
                 None \<Rightarrow> (Some ValueError, l, s)
               | Some total_transfer_size \<Rightarrow>
                   (let ts = total_transfer_size - last_total_transfer_size l;
                        l1 = l\<lparr>last_total_transfer_size := total_transfer_size,
                               transfer_size := Some ts\<rparr>;
                        s1 = s\<lparr>files_considered_for_backup :=
                                 files_considered_for_backup s + 1\<rparr>
                    in if item ''trf_type'' = Some ''FULL''
                          \<or> item ''trf_type'' = Some ''INCREMENTAL''
                       then (case scale_size ts of
                               Inl e \<Rightarrow> (Some e, l1, s1)
                             | Inr su \<Rightarrow>
                                 (case format_1f (fst su) of
                                    Inl e \<Rightarrow> (Some e, l1, s1)
                                  | Inr tenths \<Rightarrow>
                                      (None, l1,
                                       s1\<lparr>logfile := logfile s1 @
                                             [Transferred tenths (snd su)
                                                (item ''rate_trf'') (item ''fname'')],
                                           files_backed_up_now :=
                                             files_backed_up_now s1 + 1\<rparr>)))
                       else if item ''trf_type'' = Some ''FILE IN SYNC''
                       then (None, l1,
                             s1\<lparr>files_already_present := files_already_present s1 + 1\<rparr>)
                       else (None, l1,
                             s1\<lparr>logfile := logfile s1 @ [FailedToBackup item],
                                 files_failed_to_backup :=
                                   files_failed_to_backup s1 + 1\<rparr>)))))"

fun for_items ::
  "python \<Rightarrow> item list \<Rightarrow> locals \<times> state \<Rightarrow> exn option \<times> locals \<times> state" where
  "for_items py [] ls = (None, ls)"
| "for_items py (item # items) ls =
     (case process_item py item ls of
        (Some e, ls1) \<Rightarrow> (Some e, ls1)
      | (None, ls1) \<Rightarrow> for_items py items ls1)"

text \<open>Line 112; \<open>transfer_size\<close> is unbound until the first complete record.\<close>

definition upload_locals :: locals where
  "upload_locals = \<lparr>last_total_transfer_size = 0, transfer_size = None\<rparr>"

text \<open>
  \<open>upload_files(files)\<close>: the argument is the list object \<open>files\<close> of \<open>run_backup\<close>,
  so \<open>files.clear()\<close> empties the queue of the state. The loop of lines 99 to 101
  raises at the first path that cannot be encoded, before the queue is cleared and
  before the tool is invoked. The state of an exceptional exit is the state at the raise.
\<close>

definition upload_files :: "python \<Rightarrow> tool \<Rightarrow> state \<Rightarrow> exn option \<times> state" where
  "upload_files py tool s =
     (let listfile = files s;
          s0 = s\<lparr>uploads := uploads s @ [listfile]\<rparr>
      in if \<not> list_all (encodable py) listfile then (Some UnicodeEncodeError, s0)
         else
           (let s1 = s0\<lparr>files := []\<rparr>
            in case tool (length (uploads s)) listfile of
                 Inl e \<Rightarrow> (Some e, s1)
               | Inr items \<Rightarrow>
                   (case for_items py items (upload_locals, s1) of (e, l, s2) \<Rightarrow> (e, s2))))"

subsection \<open>\<open>run_backup\<close>\<close>

text \<open>
  \<open>logfile.write\<close> of a line that shows the paths \<open>shown\<close>: the log file is opened
  with the encoding UTF-8 (line 159), and the write raises \<open>UnicodeEncodeError\<close> when
  one of the paths cannot be encoded.
\<close>

definition log_paths :: "python \<Rightarrow> path list \<Rightarrow> event \<Rightarrow> state \<Rightarrow> exn option \<times> state" where
  "log_paths py shown ev s =
     (if list_all (encodable py) shown then (None, s\<lparr>logfile := logfile s @ [ev]\<rparr>)
      else (Some UnicodeEncodeError, s))"

text \<open>Lines 177 to 193, for the current value \<open>inc\<close> of the variable \<open>include\<close>.\<close>

definition visit :: "python \<Rightarrow> filesystem \<Rightarrow> tool \<Rightarrow> path list \<Rightarrow> path \<Rightarrow> state \<Rightarrow> exn option \<times> state" where
  "visit py fs tool excludes inc s =
     (case find_exclude excludes inc of
        Some exclude \<Rightarrow> log_paths py [inc, exclude] (SkipExcluded inc exclude) s
      | None \<Rightarrow>
          (case is_file fs inc of
             Inl e \<Rightarrow> (Some e, s)
           | Inr True \<Rightarrow>
               (let s1 = s\<lparr>files := files s @ [inc]\<rparr>
                in if length (files s1) = 1000 then upload_files py tool s1 else (None, s1))
           | Inr False \<Rightarrow>
               (case is_dir fs inc of
                  Inl e \<Rightarrow> (Some e, s)
                | Inr True \<Rightarrow>
                    (case iterdir fs inc of
                       Inr children \<Rightarrow> (None, s\<lparr>includes_stack := includes_stack s @ children\<rparr>)
                     | Inl FileNotFoundError \<Rightarrow> log_paths py [inc] (SkipRemoved inc) s
                     | Inl e \<Rightarrow> (Some e, s))
                | Inr False \<Rightarrow> log_paths py [inc] (SkipNeither inc) s)))"

text \<open>
  One iteration of the loop of line 171, entered with a non-empty work list.
  \<open>includes.pop()\<close> takes the last entry. The handler of line 174 formats the variable
  \<open>include\<close>, which the failed assignment has not changed, and has no \<open>continue\<close>:
  when the line is written, control reaches line 177 with that value.
\<close>

definition walk_body :: "python \<Rightarrow> filesystem \<Rightarrow> tool \<Rightarrow> path list \<Rightarrow> state \<Rightarrow> exn option \<times> state" where
  "walk_body py fs tool excludes s =
     (let popped = last (includes_stack s);
          s0 = s\<lparr>includes_stack := butlast (includes_stack s)\<rparr>
      in case resolve fs popped of
           Inr r \<Rightarrow> visit py fs tool excludes r (s0\<lparr>include_var := Some r\<rparr>)
         | Inl FileNotFoundError \<Rightarrow>
             (case include_var s0 of
                None \<Rightarrow> (Some UnboundLocalError, s0)
              | Some stale \<Rightarrow>
                  (case log_paths py [stale] (SkipBrokenLink stale) s0 of
                     (Some e, s1) \<Rightarrow> (Some e, s1)
                   | (None, s1) \<Rightarrow> visit py fs tool excludes stale s1))
         | Inl e \<Rightarrow> (Some e, s0))"

datatype outcome = Finished | Raised exn | OutOfFuel

text \<open>
  The \<open>while\<close> loop of line 171. Nothing bounds the number of iterations (a directory
  can be listed again and again), so the loop runs on fuel.
\<close>

fun walk :: "python \<Rightarrow> nat \<Rightarrow> filesystem \<Rightarrow> tool \<Rightarrow> path list \<Rightarrow> state \<Rightarrow> outcome \<times> state" where
  "walk py 0 fs tool excludes s =
     (if includes_stack s = [] then (Finished, s) else (OutOfFuel, s))"
| "walk py (Suc n) fs tool excludes s =
     (if includes_stack s = [] then (Finished, s)
      else case walk_body py fs tool excludes s of
             (Some e, s1) \<Rightarrow> (Raised e, s1)
           | (None, s1) \<Rightarrow> walk py n fs tool excludes s1)"

record config =
  cfg_includes :: "path list"
  cfg_excludes :: "path list"

definition init_state :: "config \<Rightarrow> state" where
  "init_state cfg =
     \<lparr>includes_stack = cfg_includes cfg, include_var = None, files = [], logfile = [Starting],
      uploads = [], files_considered_for_backup = 0, files_backed_up_now = 0,
      files_already_present = 0, files_failed_to_backup = 0\<rparr>"

text \<open>Lines 195 and 196.\<close>

definition flush_files :: "python \<Rightarrow> tool \<Rightarrow> state \<Rightarrow> exn option \<times> state" where
  "flush_files py tool s = (if length (files s) > 0 then upload_files py tool s else (None, s))"

text \<open>Lines 200 to 203.\<close>

definition finish_log :: "state \<Rightarrow> state" where
  "finish_log s =
     s\<lparr>logfile := logfile s @
         [if files_failed_to_backup s = 0 then FinishedSuccessful (files_backed_up_now s)
          else FinishedIncomplete (files_backed_up_now s) (files_failed_to_backup s)]\<rparr>"

text \<open>\<open>run_backup\<close> up to line 203.\<close>

definition run_backup :: "python \<Rightarrow> nat \<Rightarrow> filesystem \<Rightarrow> tool \<Rightarrow> config \<Rightarrow> outcome \<times> state" where
  "run_backup py fuel fs tool cfg =
     (case walk py fuel fs tool (cfg_excludes cfg) (init_state cfg) of
        (Finished, s1) \<Rightarrow>
          (case flush_files py tool s1 of
             (Some e, s2) \<Rightarrow> (Raised e, s2)
           | (None, s2) \<Rightarrow> (Finished, finish_log s2))
      | (Raised e, s1) \<Rightarrow> (Raised e, s1)
      | (OutOfFuel, s1) \<Rightarrow> (OutOfFuel, s1))"

subsection \<open>The scheduling decision\<close>

text \<open>
  Lines 241 to 255, one iteration of the loop. An instant is its number of microseconds
  since the epoch. A naive \<open>datetime\<close> is the number of microseconds between 1970-01-01
  00:00:00 and the wall clock time it shows, from \<open>dt_min\<close> (year 1) to \<open>dt_max\<close>
  (year 9999); a \<open>timedelta\<close> is its number of microseconds, from \<open>td_min\<close> to
  \<open>td_max\<close> (999999999 days either way).
\<close>

definition dt_min :: int where
  "dt_min = - 62135596800000000"

definition dt_max :: int where
  "dt_max = 253402300799999999"

definition is_datetime :: "int \<Rightarrow> bool" where
  "is_datetime x = (dt_min \<le> x \<and> x \<le> dt_max)"

definition td_min :: int where
  "td_min = - 86399999913600000000"

definition td_max :: int where
  "td_max = 86399999999999999999"

definition is_timedelta :: "int \<Rightarrow> bool" where
  "is_timedelta d = (td_min \<le> d \<and> d \<le> td_max)"

text \<open>
  The last-run file as lines 242 and 243 find it: \<open>Missing\<close> when \<open>open\<close> raises
  \<open>FileNotFoundError\<close>; \<open>Holds t\<close> when its text is that of a finite float, \<open>t\<close> being
  the instant that float denotes, rounded to the microsecond as \<open>fromtimestamp\<close> does;
  \<open>Unreadable\<close> when opening, reading or \<open>float\<close> raise anything else or the float is
  not finite.
\<close>

datatype lastrun_file = Missing | Unreadable | Holds int

text \<open>
  \<open>Crash\<close> is the end of the process by an exception raised outside the \<open>try\<close> of line
  257.
\<close>

datatype action = SleepAndRetry | StartRun | Crash

text \<open>
  \<open>utcoffset\<close> gives the offset of local time at an instant: \<open>datetime.fromtimestamp\<close>
  and \<open>datetime.now\<close> return the local wall clock time of their instant, and raise when
  that is not a \<open>datetime\<close>.
\<close>

definition fromtimestamp :: "(int \<Rightarrow> int) \<Rightarrow> int \<Rightarrow> int option" where
  "fromtimestamp utcoffset t =
     (if is_datetime (t + utcoffset t) then Some (t + utcoffset t) else None)"

text \<open>
  The iteration, for the content of the file, the number of microseconds of
  \<open>config['interval']\<close> seconds, and the instant \<open>now\<close> of line 248. The second
  component of the result is the write of line 255: \<open>Some now\<close> when the text of
  \<open>now.timestamp()\<close> is written, \<open>now.timestamp()\<close> being the instant \<open>now\<close> to the
  precision of a double, and \<open>None\<close> when the file is not written. The addition of line
  250 raises when the sum is not a \<open>datetime\<close>; it is evaluated only when the file exists.
\<close>

definition scheduler_iteration ::
  "(int \<Rightarrow> int) \<Rightarrow> lastrun_file \<Rightarrow> int \<Rightarrow> int \<Rightarrow> action \<times> int option" where
  "scheduler_iteration utcoffset lastrunfile interval now =
     (case (case lastrunfile of
              Missing \<Rightarrow> Some None
            | Unreadable \<Rightarrow> None
            | Holds stamp \<Rightarrow> map_option Some (fromtimestamp utcoffset stamp)) of
        None \<Rightarrow> (Crash, None)
      | Some lastrun \<Rightarrow>
          if \<not> is_timedelta interval then (Crash, None)
          else
            (case fromtimestamp utcoffset now of
               None \<Rightarrow> (Crash, None)
             | Some now_local \<Rightarrow>
                 (case lastrun of
                    None \<Rightarrow> (StartRun, Some now)
                  | Some lr \<Rightarrow>
                      if \<not> is_datetime (lr + interval) then (Crash, None)
                      else if lr + interval > now_local then (SleepAndRetry, None)
                      else (StartRun, Some now))))"

subsection \<open>The unit scaling as the specification words it\<close>

text \<open>
  Starting from the size in \<open>B\<close>, divide by 1024 and step to the next unit while the
  current value exceeds 1024 and a next unit is left. The value is shown to one decimal.
\<close>

fun scale_spec :: "real \<Rightarrow> string \<Rightarrow> string list \<Rightarrow> real \<times> string" where
  "scale_spec v u [] = (v, u)"
| "scale_spec v u (u' # us) = (if v > 1024 then scale_spec (v / 1024) u' us else (v, u))"

definition logged_spec :: "int \<Rightarrow> int \<times> string" where
  "logged_spec n =
     (let vu = scale_spec (of_int n) ''B'' [''kB'', ''MB'', ''GB'']
      in (round_half_even (10 * fst vu), snd vu))"

subsection \<open>Vocabulary of the statements\<close>

text \<open>
  A record is complete when its \<open>per\<close> attribute is \<open>100%\<close>; its cumulative value is
  \<open>int(item.get('tottrf_sz'))\<close> when that is defined; the two tests on \<open>trf_type\<close> are
  those of lines 128 and 146.
\<close>

definition complete :: "item \<Rightarrow> bool" where
  "complete item = (item ''per'' = Some ''100%'')"

definition cumulative :: "python \<Rightarrow> item \<Rightarrow> int option" where
  "cumulative py item = Option.bind (item ''tottrf_sz'') (int_str py)"

definition transferred :: "item \<Rightarrow> bool" where
  "transferred item =
     (item ''trf_type'' = Some ''FULL'' \<or> item ''trf_type'' = Some ''INCREMENTAL'')"

definition in_sync :: "item \<Rightarrow> bool" where
  "in_sync item = (item ''trf_type'' = Some ''FILE IN SYNC'')"

text \<open>
  A path is canonical when \<open>resolve\<close> returns it unchanged. A resolver is well behaved
  when every path it returns is canonical and so are all ancestors of that path, as
  holds for \<open>Path.resolve\<close>, whose results are absolute and free of symbolic links
  and of \<open>..\<close> components.
\<close>

definition canonical :: "filesystem \<Rightarrow> path \<Rightarrow> bool" where
  "canonical fs p = (resolve fs p = Inr p)"

definition resolver_ok :: "filesystem \<Rightarrow> bool" where
  "resolver_ok fs =
     (\<forall>p r. resolve fs p = Inr r \<longrightarrow> canonical fs r \<and> (\<forall>a\<in>set (parents r). canonical fs a))"

definition unmatched :: "path \<Rightarrow> path \<Rightarrow> bool" where
  "unmatched e p = (e \<noteq> p \<and> e \<notin> set (parents p))"

text \<open>The exception an outcome carries.\<close>

definition raised_of :: "outcome \<Rightarrow> exn option" where
  "raised_of r = (case r of Raised e \<Rightarrow> Some e | _ \<Rightarrow> None)"

text \<open>
  What one iteration of the walker does to the queue and to the list of batches, for the
  path \<open>inc\<close> it visits: nothing, or \<open>inc\<close> is queued, or \<open>inc\<close> completes a batch
  of 1000 with which \<open>upload_files\<close> is called. That call either clears the queue and
  invokes the tool, or raises on the list file and leaves the queue.
\<close>

definition step_effect ::
  "python \<Rightarrow> tool \<Rightarrow> path list \<Rightarrow> path \<Rightarrow> state \<Rightarrow> exn option \<Rightarrow> state \<Rightarrow> bool" where
  "step_effect py tool excludes inc s e s1 =
     ((uploads s1 = uploads s \<and> files s1 = files s)
      \<or> (uploads s1 = uploads s \<and> files s1 = files s @ [inc] \<and> e = None
          \<and> find_exclude excludes inc = None \<and> length (files s1) \<noteq> 1000)
      \<or> (uploads s1 = uploads s @ [files s @ [inc]] \<and> files s1 = []
          \<and> find_exclude excludes inc = None \<and> length (files s @ [inc]) = 1000
          \<and> list_all (encodable py) (files s @ [inc])
          \<and> (\<forall>x. tool (length (uploads s)) (files s @ [inc]) = Inl x \<longrightarrow> e = Some x))
      \<or> (uploads s1 = uploads s @ [files s @ [inc]] \<and> files s1 = files s @ [inc]
          \<and> find_exclude excludes inc = None \<and> length (files s @ [inc]) = 1000
          \<and> \<not> list_all (encodable py) (files s @ [inc])
          \<and> e = Some UnicodeEncodeError))"

text \<open>
  The invariant of the walk, for the exception \<open>e\<close> the walk has ended with, if any. A
  call of \<open>upload_files\<close> that failed, on the list file or in the tool, is the last one
  and the run raised what it raised; when the tool raised, the queue is empty.
\<close>

definition batches_ok :: "python \<Rightarrow> tool \<Rightarrow> path list \<Rightarrow> exn option \<Rightarrow> state \<Rightarrow> bool" where
  "batches_ok py tool excludes e s =
     ((length (files s) < 1000 \<or> (e = Some UnicodeEncodeError \<and> length (files s) = 1000))
      \<and> (\<forall>b\<in>set (uploads s). length b = 1000)
      \<and> (\<forall>p\<in>set (files s) \<union> set (concat (uploads s)). find_exclude excludes p = None)
      \<and> (\<forall>i. i < length (uploads s) \<and> \<not> list_all (encodable py) (uploads s ! i)
             \<longrightarrow> e = Some UnicodeEncodeError \<and> Suc i = length (uploads s))
      \<and> (\<forall>i x. i < length (uploads s) \<and> list_all (encodable py) (uploads s ! i)
                \<and> tool i (uploads s ! i) = Inl x
             \<longrightarrow> e = Some x \<and> Suc i = length (uploads s) \<and> files s = []))"

subsection \<open>A runtime for the examples\<close>

text \<open>
  The examples run on a runtime whose \<open>int\<close> reads decimal literals in ASCII (surrounding
  white space, an optional sign, digits with single underscores between them) and for
  which the paths of ASCII characters are the encodable ones, as under an ASCII file
  system encoding. Nothing but the examples depends on it.
\<close>

definition is_space :: "char \<Rightarrow> bool" where
  "is_space c = (c \<in> set [CHR '' '', CHR 0x09, CHR 0x0A, CHR 0x0B, CHR 0x0C, CHR 0x0D])"

definition digit_val :: "char \<Rightarrow> nat option" where
  "digit_val c =
     (let n = (of_char c :: nat) in if 48 \<le> n \<and> n \<le> 57 then Some (n - 48) else None)"

fun digits :: "bool \<Rightarrow> string \<Rightarrow> nat \<Rightarrow> nat option" where
  "digits prev [] acc = (if prev then Some acc else None)"
| "digits prev (c # cs) acc =
     (if c = CHR ''_'' then (if prev then digits False cs acc else None)
      else (case digit_val c of
              None \<Rightarrow> None
            | Some v \<Rightarrow> digits True cs (acc * 10 + v)))"

definition strip :: "string \<Rightarrow> string" where
  "strip s = rev (dropWhile is_space (rev (dropWhile is_space s)))"

definition ascii_int :: "string \<Rightarrow> int option" where
  "ascii_int s =
     (case strip s of
        [] \<Rightarrow> None
      | c # cs \<Rightarrow>
          if c = CHR ''-'' then map_option (\<lambda>n. - int n) (digits False cs 0)
          else if c = CHR ''+'' then map_option int (digits False cs 0)
          else map_option int (digits False (c # cs) 0))"

definition ascii_path :: "path \<Rightarrow> bool" where
  "ascii_path p = list_all (list_all (\<lambda>c. (of_char c :: nat) < 128)) p"

definition ascii_python :: python where
  "ascii_python = \<lparr>int_str = ascii_int, encodable = ascii_path\<rparr>"

subsection \<open>A small file system and two tools\<close>

text \<open>
  \<open>/data\<close> holds the file \<open>a.txt\<close> and the symbolic link \<open>link\<close> to the directory
  \<open>/srv\<close>, which holds the file \<open>b.txt\<close>; nothing can be resolved below \<open>/broken\<close>.
  The first tool answers every batch with one progress record and two complete ones,
  the second one always fails.
\<close>

definition example_fs :: filesystem where
  "example_fs =
     \<lparr>resolve = (\<lambda>p. if prefix [''/'', ''broken''] p then Inl FileNotFoundError
                     else if prefix [''/'', ''data'', ''link''] p
                          then Inr ([''/'', ''srv''] @ drop 3 p)
                     else Inr p),
      is_file = (\<lambda>p. Inr (p = [''/'', ''data'', ''a.txt''] \<or> p = [''/'', ''srv'', ''b.txt''])),
      is_dir = (\<lambda>p. Inr (p = [''/'', ''data''] \<or> p = [''/'', ''srv''])),
      iterdir = (\<lambda>p. if p = [''/'', ''data'']
                       then Inr [[''/'', ''data'', ''a.txt''], [''/'', ''data'', ''link'']]
                     else if p = [''/'', ''srv''] then Inr [[''/'', ''srv'', ''b.txt'']]
                     else Inl OSError)\<rparr>"

definition record_of :: "string \<Rightarrow> string \<Rightarrow> item" where
  "record_of tot ty =
     [''per'' \<mapsto> ''100%'', ''fname'' \<mapsto> ''data/a.txt'', ''trf_type'' \<mapsto> ty,
      ''rate_trf'' \<mapsto> ''10kB/s'', ''tottrf_sz'' \<mapsto> tot]"

definition progress_of :: "string \<Rightarrow> item" where
  "progress_of tot = [''per'' \<mapsto> ''50%'', ''tottrf_sz'' \<mapsto> tot]"

definition record_without_total :: item where
  "record_without_total = [''per'' \<mapsto> ''100%'', ''fname'' \<mapsto> ''data/a.txt'', ''trf_type'' \<mapsto> ''FULL'']"

definition example_tool :: tool where
  "example_tool n batch =
     Inr [progress_of ''700'', record_of ''1000'' ''FULL'', record_of ''1500'' ''FILE IN SYNC'']"

definition failing_tool :: tool where
  "failing_tool n batch = Inl CalledProcessError"

definition data_config :: config where
  "data_config = \<lparr>cfg_includes = [[''/'', ''data'']], cfg_excludes = []\<rparr>"

definition link_excluded_config :: config where
  "link_excluded_config =
     \<lparr>cfg_includes = [[''/'', ''data'']], cfg_excludes = [[''/'', ''data'', ''link'']]\<rparr>"

definition srv_excluded_config :: config where
  "srv_excluded_config =
     \<lparr>cfg_includes = [[''/'', ''data'']], cfg_excludes = [[''/'', ''srv'']]\<rparr>"

definition broken_only_config :: config where
  "broken_only_config = \<lparr>cfg_includes = [[''/'', ''broken'']], cfg_excludes = []\<rparr>"

definition file_then_broken_config :: config where
  "file_then_broken_config =
     \<lparr>cfg_includes = [[''/'', ''broken''], [''/'', ''data'', ''a.txt'']], cfg_excludes = []\<rparr>"

definition empty_config :: config where
  "empty_config = \<lparr>cfg_includes = [], cfg_excludes = []\<rparr>"

definition empty_state :: state where
  "empty_state = init_state empty_config"

definition queued_state :: state where
  "queued_state = empty_state\<lparr>files := [[''/'', ''data'', ''a.txt'']]\<rparr>"

text \<open>A queue that holds a file name with the byte \<open>0xFF\<close>.\<close>

definition unencodable_state :: state where
  "unencodable_state = empty_state\<lparr>files := [[''/'', ''data'', [CHR 0xFF]]]\<rparr>"

text \<open>
  The three complete records of the counterexample to the conservation of the counters:
  the second one has no \<open>tottrf_sz\<close> attribute.
\<close>

definition broken_response :: "item list" where
  "broken_response =
     [record_of ''10'' ''FULL'', record_without_total, record_of ''30'' ''FULL'']"

definition broken_tool :: tool where
  "broken_tool n batch = Inr broken_response"

text \<open>
  Local time in Berlin around 27 October 2024: two hours ahead of UTC before 01:00 UTC
  of that day, one hour from then on.
\<close>

definition berlin_2024 :: "int \<Rightarrow> int" where
  "berlin_2024 t = (if t < 1729990800000000 then 7200000000 else 3600000000)"

text \<open>No offset at all.\<close>

definition utc :: "int \<Rightarrow> int" where
  "utc t = 0"

subsection \<open>A directory of 1001 files\<close>

text \<open>
  \<open>/big\<close> holds 1001 regular files and nothing else exists; the tool accepts every
  batch and reports no record.
\<close>

definition children_of :: "nat \<Rightarrow> path list" where
  "children_of n = map (\<lambda>k. [''/'', ''big'', replicate (Suc k) CHR ''x'']) [0..<n]"

definition big_children :: "path list" where
  "big_children = children_of 1001"

definition big_fs :: filesystem where
  "big_fs =
     \<lparr>resolve = (\<lambda>p. Inr p),
      is_file = (\<lambda>p. Inr (p \<noteq> [''/'', ''big''])),
      is_dir = (\<lambda>p. Inr (p = [''/'', ''big''])),
      iterdir = (\<lambda>p. if p = [''/'', ''big''] then Inr big_children else Inl OSError)\<rparr>"

definition quiet_tool :: tool where
  "quiet_tool n batch = Inr []"

definition big_config :: config where
  "big_config = \<lparr>cfg_includes = [[''/'', ''big'']], cfg_excludes = []\<rparr>"

section \<open>Properties\<close>

subsection \<open>Ancestors and the exclude test\<close>

lemma set_parents:
  "set (parents p) = {take n p | n. (if anchored p then 1 else 0) \<le> n \<and> n < length p}"
  by (auto simp: parents_def)

text \<open>
  The ancestors of a path are its proper prefixes; the empty path \<open>Path('.')\<close> is an
  ancestor of relative paths only.
\<close>

lemma in_parents_iff:
  "e \<in> set (parents p) \<longleftrightarrow> strict_prefix e p \<and> (anchored p \<longrightarrow> e \<noteq> [])"
proof
  assume "e \<in> set (parents p)"
  then obtain n where n: "e = take n p" "(if anchored p then 1 else 0) \<le> n" "n < length p"
    by (auto simp: set_parents)
  have "strict_prefix e p"
    using n by (auto simp: strict_prefix_def take_is_prefix)
  moreover have "anchored p \<Longrightarrow> e \<noteq> []"
    using n by (auto simp: anchored_def split: list.splits)
  ultimately show "strict_prefix e p \<and> (anchored p \<longrightarrow> e \<noteq> [])" by blast
next
  assume a: "strict_prefix e p \<and> (anchored p \<longrightarrow> e \<noteq> [])"
  then obtain zs where zs: "p = e @ zs" "zs \<noteq> []"
    by (auto simp: strict_prefix_def prefix_def)
  have "e = take (length e) p" "length e < length p" using zs by auto
  moreover have "(if anchored p then 1 else 0) \<le> length e"
    using a by (cases e) auto
  ultimately show "e \<in> set (parents p)" unfolding set_parents by blast
qed

lemma find_exclude_None_iff:
  "find_exclude es p = None \<longleftrightarrow> (\<forall>e\<in>set es. e \<noteq> p \<and> e \<notin> set (parents p))"
  by (induction es) auto

text \<open>
  Claim C8. The decision to skip a candidate is the same for every permutation of the
  exclude list: the candidate is skipped exactly when some exclude equals it or is one
  of its ancestors.
\<close>

theorem skip_decision_permutation:
  "mset xs = mset ys \<Longrightarrow>
     (find_exclude xs p = None) = (find_exclude ys p = None) \<and>
     (find_exclude xs p \<noteq> None) = (\<exists>e\<in>set xs. e = p \<or> e \<in> set (parents p))"
  using mset_eq_setD [of xs ys] by (auto simp: find_exclude_None_iff)

theorem skip_decision_permutation_witness:
  "mset [[''/'', ''a''], [''/'', ''b'']] = mset [[''/'', ''b''], [''/'', ''a'']] \<and>
   find_exclude [[''/'', ''a''], [''/'', ''b'']] [''/'', ''b'', ''f''] \<noteq> None \<and>
   find_exclude [[''/'', ''b''], [''/'', ''a'']] [''/'', ''b'', ''f''] \<noteq> None"
proof -
  have h: "mset [[''/'', ''a''], [''/'', ''b'']] = mset [[''/'', ''b''], [''/'', ''a'']]"
    by simp
  have "find_exclude [[''/'', ''a''], [''/'', ''b'']] [''/'', ''b'', ''f''] \<noteq> None"
    by (simp add: parents_def anchored_def)
  with h skip_decision_permutation [OF h, of "[''/'', ''b'', ''f'']"] show ?thesis
    by blast
qed

subsection \<open>The logged size\<close>

lemma round_to_double_small:
  assumes "\<bar>n\<bar> < 2 ^ 53"
  shows "round_to_double n = n"
proof -
  have "bitlen \<bar>n\<bar> \<le> 53"
  proof (cases "\<bar>n\<bar> > 0")
    case True
    from bitlen_bounds [OF True] assms
    have lt: "(2::int) ^ nat (bitlen \<bar>n\<bar> - 1) < 2 ^ 53" by linarith
    have one: "(1::int) < 2" by simp
    from power_less_imp_less_exp [OF one lt] have "nat (bitlen \<bar>n\<bar> - 1) < 53" .
    then show ?thesis by linarith
  next
    case False
    then show ?thesis by simp
  qed
  then show ?thesis by (simp add: round_to_double_def)
qed

lemma round_half_even_of_int: "round_half_even (of_int k) = k"
  by (simp add: round_half_even_def)

lemma div_1024_small:
  "0 \<le> n \<Longrightarrow> n < 2 ^ 53 \<Longrightarrow> div_1024 (PyInt n) = Inr (PyFloat (of_int n / 1024))"
proof -
  assume n: "0 \<le> n" "n < 2 ^ 53"
  then have r: "round_to_double n = n" by (intro round_to_double_small) simp
  have "(2::int) ^ 53 < 2 ^ 1034" by (rule power_strict_increasing) simp_all
  with n have "\<bar>n\<bar> < 2 ^ 1034" by linarith
  with r show ?thesis by (simp add: div_1024_def)
qed

lemma format_1f_small:
  "0 \<le> n \<Longrightarrow> n < 2 ^ 53 \<Longrightarrow> format_1f (PyInt n) = Inr (round_half_even (10 * of_int n))"
proof -
  assume n: "0 \<le> n" "n < 2 ^ 53"
  then have r: "round_to_double n = n" by (intro round_to_double_small) simp
  have "(2::int) ^ 53 < 2 ^ 1024" by (rule power_strict_increasing) simp_all
  with n have "\<bar>n\<bar> < 2 ^ 1024" by linarith
  moreover have "round_half_even (10 * of_int n) = 10 * n"
    using round_half_even_of_int [of "10 * n"] by simp
  ultimately show ?thesis using r by (simp add: format_1f_def)
qed

text \<open>
  Below \<open>2 ^ 53\<close> every size is a double, so the three tests and divisions of the code
  give the value and the unit of the specification, and the text shows that value.
\<close>

lemma scale_size_small:
  assumes "0 \<le> n" and "n < 2 ^ 53"
  shows "\<exists>x. scale_size n = Inr (x, snd (logged_spec n))
           \<and> format_1f x = Inr (fst (logged_spec n))"
proof -
  define v :: real where "v = of_int n"
  note d = div_1024_small [OF assms, folded v_def]
  note f = format_1f_small [OF assms, folded v_def]
  have g: "gt_1024 (PyInt n) = (v > 1024)" by (simp add: gt_1024_def v_def)
  show ?thesis
  proof (cases "v > 1024")
    case False
    with g f show ?thesis
      by (simp add: scale_size_def scale_step_def logged_spec_def gt_1024_def v_def)
  next
    case k: True
    show ?thesis
    proof (cases "v / 1024 > 1024")
      case False
      with k g d show ?thesis
        by (simp add: scale_size_def scale_step_def logged_spec_def gt_1024_def div_1024_def
              format_1f_def v_def)
    next
      case m: True
      show ?thesis
      proof (cases "v / 1024 / 1024 > 1024")
        case False
        with k m g d show ?thesis
          by (simp add: scale_size_def scale_step_def logged_spec_def gt_1024_def div_1024_def
                format_1f_def v_def)
      next
        case True
        with k m g d show ?thesis
          by (simp add: scale_size_def scale_step_def logged_spec_def gt_1024_def div_1024_def
                format_1f_def v_def)
      qed
    qed
  qed
qed

lemma ascii_int_examples:
  "ascii_int ''1000'' = Some 1000" "ascii_int ''1500'' = Some 1500"
  "ascii_int ''10'' = Some 10" "ascii_int ''30'' = Some 30"
  "ascii_int ''9007199308428083'' = Some 9007199308428083"
  by (simp_all add: ascii_int_def strip_def is_space_def digit_val_def)

lemma example_cumulative:
  "cumulative ascii_python (record_of ''1000'' ty) = Some 1000"
  "cumulative ascii_python (record_of ''1500'' ty) = Some 1500"
  "cumulative ascii_python (record_of ''9007199308428083'' ty) = Some 9007199308428083"
  by (simp_all add: cumulative_def record_of_def ascii_python_def ascii_int_examples)

lemma example_complete:
  "\<not> complete (progress_of t)" "complete (record_of t ty)" "complete record_without_total"
  by (simp_all add: complete_def progress_of_def record_of_def record_without_total_def)

lemma example_transferred:
  "transferred (record_of t ''FULL'')" "\<not> transferred (record_of t ''FILE IN SYNC'')"
  "in_sync (record_of t ''FILE IN SYNC'')" "transferred record_without_total"
  by (simp_all add: transferred_def in_sync_def record_of_def record_without_total_def)

lemma logged_spec_1500: "logged_spec 1500 = (15, ''kB'')"
  by (simp add: logged_spec_def round_half_even_def)

lemma logged_spec_big: "logged_spec 9007199308428083 = (83886080, ''GB'')"
  by (simp add: logged_spec_def round_half_even_def)

lemma bitlen_big: "bitlen 9007199308428083 = 54"
  by code_simp

lemma round_big: "round_to_double 9007199308428083 = 9007199308428084"
  by (simp add: round_to_double_def bitlen_big Let_def)

lemma scale_big:
  "scale_size 9007199308428083 = Inr (PyFloat (9007199308428084 / 2 ^ 30), ''GB'')"
  by (simp add: scale_size_def scale_step_def gt_1024_def div_1024_def round_big)

text \<open>
  Claim C6. (as amended) For every transfer size from 0 to below \<open>2 ^ 53\<close> of a complete
  FULL or INCREMENTAL record, the line logged shows, to one decimal, the value obtained
  by dividing by 1024 and stepping the unit from B through kB and MB to GB while the
  current value exceeds 1024, together with that unit; a value of exactly 1024 is not
  scaled.
\<close>

theorem logged_size_scaled:
  assumes "complete item" and "transferred item" and "cumulative py item = Some t"
    and "ts = t - last_total_transfer_size l" and "0 \<le> ts" and "ts < 2 ^ 53"
  shows "\<exists>l1 s1. process_item py item (l, s) = (None, l1, s1)
           \<and> logfile s1 = logfile s @
                 [Transferred (fst (logged_spec ts)) (snd (logged_spec ts))
                    (item ''rate_trf'') (item ''fname'')]
           \<and> logged_spec 1024 = (10240, ''B'')"
proof -
  from scale_size_small [OF assms(5,6)] obtain x where
    x: "scale_size ts = Inr (x, snd (logged_spec ts))"
       "format_1f x = Inr (fst (logged_spec ts))"
    by blast
  from assms(3) obtain w where
    w: "item ''tottrf_sz'' = Some w" "int_str py w = Some t"
    by (auto simp: cumulative_def split: Option.bind_splits)
  have "logged_spec 1024 = (10240, ''B'')"
    by (simp add: logged_spec_def round_half_even_def)
  with assms(1,2) w x assms(4) show ?thesis
    by (auto simp: process_item_def complete_def transferred_def Let_def)
qed

theorem logged_size_scaled_witness:
  "complete (record_of ''1500'' ''FULL'') \<and> transferred (record_of ''1500'' ''FULL'')
   \<and> cumulative ascii_python (record_of ''1500'' ''FULL'') = Some 1500
   \<and> logfile (snd (snd (process_item ascii_python (record_of ''1500'' ''FULL'')
        (upload_locals, empty_state))))
      = [Starting, Transferred 15 ''kB'' (Some ''10kB/s'') (Some ''data/a.txt'')]"
proof -
  have l: "(1500::int) = 1500 - last_total_transfer_size upload_locals"
    by (simp add: upload_locals_def)
  have e: "logfile empty_state = [Starting]"
    by (simp add: empty_state_def init_state_def)
  from logged_size_scaled [OF example_complete(2) example_transferred(1)
      example_cumulative(2) l, where s = empty_state]
    example_complete(2) example_transferred(1) example_cumulative(2) e
  show ?thesis by (auto simp: logged_spec_1500 record_of_def)
qed

text \<open>
  The size 9007199308428083, just above \<open>2 ^ 53\<close>, is not a double: the division
  rounds it to 9007199308428084 and the line shows 8388608.1 GB, where the exact
  quotient shows 8388608.0.
\<close>

theorem logged_size_rounded:
  "logfile (snd (snd (process_item ascii_python (record_of ''9007199308428083'' ''FULL'')
        (upload_locals, empty_state))))
      = [Starting, Transferred 83886081 ''GB'' (Some ''10kB/s'') (Some ''data/a.txt'')]
   \<and> logged_spec 9007199308428083 = (83886080, ''GB'')"
  by (simp add: process_item_def record_of_def ascii_python_def ascii_int_examples
        upload_locals_def empty_state_def init_state_def scale_big format_1f_def
        round_half_even_def logged_spec_big Let_def)

subsection \<open>The scheduling decision\<close>

text \<open>
  Claim C7. (as amended) When the last-run file holds a timestamp and the stored time, the
  stored time plus the interval and the time now are datetimes, a run starts if the
  stored time, as local wall clock time, is less than the local wall clock time now minus
  the interval; if it is greater, the iteration sleeps and retries, and the file is not
  written. Where the offset of local time is the same at both instants, this is the
  comparison of the stored timestamp with the current time minus the interval.
\<close>

theorem scheduler_iteration_decision:
  assumes "is_datetime (stamp + utcoffset stamp)"
    and "is_datetime (stamp + utcoffset stamp + interval)"
    and "is_datetime (now + utcoffset now)"
    and "is_timedelta interval"
  shows "(stamp + utcoffset stamp < now + utcoffset now - interval \<longrightarrow>
            scheduler_iteration utcoffset (Holds stamp) interval now = (StartRun, Some now))
     \<and> (stamp + utcoffset stamp > now + utcoffset now - interval \<longrightarrow>
            scheduler_iteration utcoffset (Holds stamp) interval now = (SleepAndRetry, None))
     \<and> (utcoffset stamp = utcoffset now \<and> stamp < now - interval \<longrightarrow>
            scheduler_iteration utcoffset (Holds stamp) interval now = (StartRun, Some now))
     \<and> (utcoffset stamp = utcoffset now \<and> stamp > now - interval \<longrightarrow>
            scheduler_iteration utcoffset (Holds stamp) interval now = (SleepAndRetry, None))"
  using assms by (auto simp: scheduler_iteration_def fromtimestamp_def)

theorem scheduler_iteration_decision_witness:
  "scheduler_iteration utc (Holds 100000000) 50000000 200000000 = (StartRun, Some 200000000)
   \<and> scheduler_iteration utc (Holds 100000000) 50000000 120000000 = (SleepAndRetry, None)
   \<and> scheduler_iteration berlin_2024 (Holds 1729980000000000) 3600000000 1729990000000000
       = (StartRun, Some 1729990000000000)"
proof -
  have r: "is_datetime (100000000 + utc 100000000)"
    "is_datetime (100000000 + utc 100000000 + 50000000)"
    by (simp_all add: is_datetime_def dt_min_def dt_max_def utc_def)
  have n: "is_datetime (200000000 + utc 200000000)" "is_datetime (120000000 + utc 120000000)"
    by (simp_all add: is_datetime_def dt_min_def dt_max_def utc_def)
  have i: "is_timedelta 50000000" "is_timedelta 3600000000"
    by (simp_all add: is_timedelta_def td_min_def td_max_def)
  have b: "is_datetime (1729980000000000 + berlin_2024 1729980000000000)"
    "is_datetime (1729980000000000 + berlin_2024 1729980000000000 + 3600000000)"
    "is_datetime (1729990000000000 + berlin_2024 1729990000000000)"
    by (simp_all add: is_datetime_def dt_min_def dt_max_def berlin_2024_def)
  from scheduler_iteration_decision [where utcoffset = utc and stamp = 100000000
      and interval = 50000000 and now = 200000000, OF r n(1) i(1)]
    scheduler_iteration_decision [where utcoffset = utc and stamp = 100000000
      and interval = 50000000 and now = 120000000, OF r n(2) i(1)]
    scheduler_iteration_decision [where utcoffset = berlin_2024 and stamp = 1729980000000000
      and interval = 3600000000 and now = 1729990000000000, OF b i(2)]
  show ?thesis by (simp add: utc_def berlin_2024_def)
qed

text \<open>
  In Berlin on 27 October 2024 the stored time 00:20 UTC is shown as 02:20 and the time
  now 01:50 UTC as 02:50: an hour and a half has passed, the interval is one hour, and the
  iteration sleeps. And a stored time in the last hour of the year 9999 is greater than
  the time now minus the interval, but adding the hour to it ends the process.
\<close>

theorem scheduler_iteration_dst:
  "(1729988400000000 :: int) < 1729993800000000 - 3600000000
   \<and> scheduler_iteration berlin_2024 (Holds 1729988400000000) 3600000000 1729993800000000
       = (SleepAndRetry, None)
   \<and> (253402300000000000 :: int) > 1729993800000000 - 3600000000
   \<and> scheduler_iteration utc (Holds 253402300000000000) 3600000000 1729993800000000
       = (Crash, None)"
  by (simp add: scheduler_iteration_def fromtimestamp_def is_datetime_def is_timedelta_def
        berlin_2024_def utc_def dt_min_def dt_max_def td_min_def td_max_def)

subsection \<open>The loop of \<open>upload_files\<close>\<close>

lemma process_item_skip:
  "\<not> complete item \<Longrightarrow> process_item py item (l, s) = (None, l, s)"
  by (simp add: process_item_def complete_def)

lemma process_item_ok:
  assumes "process_item py item (l, s) = (None, l1, s1)" and "complete item"
  shows "\<exists>t. cumulative py item = Some t
     \<and> l1 = \<lparr>last_total_transfer_size = t, transfer_size = Some (t - last_total_transfer_size l)\<rparr>
     \<and> files_considered_for_backup s1 = files_considered_for_backup s + 1
     \<and> files_backed_up_now s1 = files_backed_up_now s + (if transferred item then 1 else 0)
     \<and> files_already_present s1 = files_already_present s
          + (if \<not> transferred item \<and> in_sync item then 1 else 0)
     \<and> files_failed_to_backup s1 = files_failed_to_backup s
          + (if \<not> transferred item \<and> \<not> in_sync item then 1 else 0)
     \<and> files s1 = files s \<and> uploads s1 = uploads s \<and> includes_stack s1 = includes_stack s
     \<and> include_var s1 = include_var s"
  using assms
  by (auto simp: process_item_def complete_def cumulative_def transferred_def in_sync_def
        Let_def split: option.splits if_splits sum.splits)

lemma process_item_frame:
  "process_item py item (l, s) = (e, l1, s1) \<Longrightarrow>
     files s1 = files s \<and> uploads s1 = uploads s \<and> includes_stack s1 = includes_stack s
     \<and> include_var s1 = include_var s"
  by (auto simp: process_item_def Let_def split: option.splits if_splits sum.splits)

lemma for_items_frame:
  "for_items py items (l, s) = (e, l1, s1) \<Longrightarrow>
     files s1 = files s \<and> uploads s1 = uploads s \<and> includes_stack s1 = includes_stack s
     \<and> include_var s1 = include_var s"
proof (induction items arbitrary: l s)
  case Nil
  then show ?case by simp
next
  case (Cons item items)
  obtain e' l' s' where p: "process_item py item (l, s) = (e', l', s')"
    by (metis prod_cases3)
  show ?case
  proof (cases e')
    case None
    with Cons.prems p have "for_items py items (l', s') = (e, l1, s1)" by simp
    from Cons.IH [OF this] process_item_frame [OF p] show ?thesis by simp
  next
    case (Some x)
    with Cons.prems p have "s1 = s'" by simp
    with process_item_frame [OF p] show ?thesis by simp
  qed
qed

lemma for_items_counters:
  "for_items py items (l, s) = (None, l1, s1) \<Longrightarrow>
     files_considered_for_backup s1 =
       files_considered_for_backup s + int (length (filter complete items))
     \<and> files_backed_up_now s1 = files_backed_up_now s
         + int (length (filter (\<lambda>i. complete i \<and> transferred i) items))
     \<and> files_already_present s1 = files_already_present s
         + int (length (filter (\<lambda>i. complete i \<and> \<not> transferred i \<and> in_sync i) items))
     \<and> files_failed_to_backup s1 = files_failed_to_backup s
         + int (length (filter (\<lambda>i. complete i \<and> \<not> transferred i \<and> \<not> in_sync i) items))"
proof (induction items arbitrary: l s)
  case Nil
  then show ?case by simp
next
  case (Cons item items)
  obtain e' l' s' where p: "process_item py item (l, s) = (e', l', s')"
    by (metis prod_cases3)
  with Cons.prems have e': "e' = None" by (cases e') auto
  with Cons.prems p have r: "for_items py items (l', s') = (None, l1, s1)" by simp
  show ?case
  proof (cases "complete item")
    case True
    from process_item_ok [OF p [unfolded e'] True] Cons.IH [OF r] True show ?thesis
      by auto
  next
    case False
    with p process_item_skip [OF False, of py l s] have "l' = l" "s' = s" by simp_all
    with Cons.IH [OF r] False show ?thesis by simp
  qed
qed

text \<open>
  The counters at any exit of the loop: \<open>considered\<close> never exceeds the sum of the three
  others by more than one, and never the number of complete records.
\<close>

lemma process_item_counters:
  assumes "process_item py item (l, s) = (e, l1, s1)"
  shows "\<exists>c b. files_considered_for_backup s1 = files_considered_for_backup s + c
     \<and> files_backed_up_now s1 + files_already_present s1 + files_failed_to_backup s1
         = files_backed_up_now s + files_already_present s + files_failed_to_backup s + b
     \<and> 0 \<le> b \<and> b \<le> c \<and> c \<le> b + 1 \<and> c \<le> (if complete item then 1 else 0)"
  using assms
  by (auto simp: process_item_def complete_def Let_def
        split: option.splits if_splits sum.splits)

lemma for_items_counters_any:
  "for_items py items (l, s) = (e, l1, s1) \<Longrightarrow>
     \<exists>c b. files_considered_for_backup s1 = files_considered_for_backup s + c
     \<and> files_backed_up_now s1 + files_already_present s1 + files_failed_to_backup s1
         = files_backed_up_now s + files_already_present s + files_failed_to_backup s + b
     \<and> 0 \<le> b \<and> b \<le> c \<and> c \<le> b + 1 \<and> c \<le> int (length (filter complete items))"
proof (induction items arbitrary: l s)
  case Nil
  then show ?case by simp
next
  case (Cons item items)
  obtain e' l' s' where p: "process_item py item (l, s) = (e', l', s')"
    by (metis prod_cases3)
  from process_item_counters [OF p] obtain c b where
    cb: "files_considered_for_backup s' = files_considered_for_backup s + c"
      "files_backed_up_now s' + files_already_present s' + files_failed_to_backup s'
         = files_backed_up_now s + files_already_present s + files_failed_to_backup s + b"
      "0 \<le> b" "b \<le> c" "c \<le> b + 1" "c \<le> (if complete item then 1 else 0)"
    by blast
  show ?case
  proof (cases e')
    case (Some x)
    with Cons.prems p have "s1 = s'" by simp
    with cb show ?thesis by (intro exI [of _ c] exI [of _ b]) (auto split: if_splits)
  next
    case None
    with Cons.prems p have r: "for_items py items (l', s') = (e, l1, s1)" by simp
    have full: "b = c \<and> c = (if complete item then 1 else 0)"
    proof (cases "complete item")
      case True
      from process_item_ok [OF p [unfolded None] True] cb show ?thesis
        by (auto split: if_splits)
    next
      case False
      with p process_item_skip [OF False, of py l s] cb show ?thesis by simp
    qed
    from Cons.IH [OF r] obtain c' b' where
      cb': "files_considered_for_backup s1 = files_considered_for_backup s' + c'"
        "files_backed_up_now s1 + files_already_present s1 + files_failed_to_backup s1
           = files_backed_up_now s' + files_already_present s' + files_failed_to_backup s' + b'"
        "0 \<le> b'" "b' \<le> c'" "c' \<le> b' + 1" "c' \<le> int (length (filter complete items))"
      by blast
    from cb cb' full show ?thesis
      by (intro exI [of _ "c + c'"] exI [of _ "b + b'"]) (auto split: if_splits)
  qed
qed

lemma for_items_append:
  "for_items py (xs @ ys) ls =
     (case for_items py xs ls of (Some e, ls1) \<Rightarrow> (Some e, ls1) | (None, ls1) \<Rightarrow> for_items py ys ls1)"
  by (induction xs arbitrary: ls) (auto split: prod.splits option.splits)

lemma for_items_incomplete:
  "\<forall>i\<in>set items. \<not> complete i \<Longrightarrow> for_items py items (l, s) = (None, l, s)"
  by (induction items) (auto simp: process_item_skip)

lemma filter_partition3:
  "length (filter P xs) =
     length (filter (\<lambda>i. P i \<and> A i) xs)
     + length (filter (\<lambda>i. P i \<and> \<not> A i \<and> B i) xs)
     + length (filter (\<lambda>i. P i \<and> \<not> A i \<and> \<not> B i) xs)"
  by (induction xs) auto

lemma for_items_last_total:
  assumes "for_items py (pre @ [a]) (l0, s) = (None, l, s1)" and "complete a"
  shows "cumulative py a = Some (last_total_transfer_size l)"
proof -
  obtain l' s' where p: "for_items py pre (l0, s) = (None, l', s')"
    using assms(1) by (auto simp: for_items_append split: prod.splits option.splits)
  with assms(1) have "process_item py a (l', s') = (None, l, s1)"
    by (auto simp: for_items_append split: prod.splits option.splits)
  from process_item_ok [OF this assms(2)] show ?thesis by auto
qed

lemma for_items_next_size:
  assumes "for_items py (mid @ [b]) (l0, s) = (None, l, s1)"
    and "\<forall>i\<in>set mid. \<not> complete i" and "complete b"
  shows "\<exists>t. cumulative py b = Some t \<and> transfer_size l = Some (t - last_total_transfer_size l0)"
proof -
  have "for_items py mid (l0, s) = (None, l0, s)"
    using assms(2) by (rule for_items_incomplete)
  with assms(1) have "process_item py b (l0, s) = (None, l, s1)"
    by (auto simp: for_items_append split: prod.splits option.splits)
  from process_item_ok [OF this assms(3)] show ?thesis by auto
qed

lemma upload_files_effect:
  assumes "upload_files py tool s = (e, s1)"
  shows "uploads s1 = uploads s @ [files s]
     \<and> includes_stack s1 = includes_stack s \<and> include_var s1 = include_var s
     \<and> (list_all (encodable py) (files s) \<longrightarrow>
          files s1 = [] \<and> (\<forall>x. tool (length (uploads s)) (files s) = Inl x \<longrightarrow> e = Some x))
     \<and> (\<not> list_all (encodable py) (files s) \<longrightarrow>
          files s1 = files s \<and> e = Some UnicodeEncodeError)"
proof (cases "list_all (encodable py) (files s)")
  case False
  with assms show ?thesis by (auto simp: upload_files_def Let_def)
next
  case enc: True
  show ?thesis
  proof (cases "tool (length (uploads s)) (files s)")
    case (Inl x)
    with enc assms show ?thesis by (auto simp: upload_files_def Let_def)
  next
    case (Inr items)
    with enc assms obtain l where
      "for_items py items
         (upload_locals, s\<lparr>uploads := uploads s @ [files s], files := []\<rparr>) = (e, l, s1)"
      by (auto simp: upload_files_def Let_def split: prod.splits)
    from for_items_frame [OF this] Inr enc show ?thesis by simp
  qed
qed

subsection \<open>The walk\<close>

lemma log_paths_frame:
  assumes "log_paths py shown ev s = (e, s1)"
  shows "files s1 = files s \<and> uploads s1 = uploads s \<and> include_var s1 = include_var s
     \<and> includes_stack s1 = includes_stack s"
  using assms by (auto simp: log_paths_def split: if_splits)

lemma visit_effect:
  assumes "visit py fs tool excludes inc s = (e, s1)"
  shows "step_effect py tool excludes inc s e s1 \<and> include_var s1 = include_var s"
proof (cases "find_exclude excludes inc")
  case (Some x)
  with assms have "log_paths py [inc, x] (SkipExcluded inc x) s = (e, s1)"
    by (simp add: visit_def)
  from log_paths_frame [OF this] show ?thesis by (simp add: step_effect_def)
next
  case None
  show ?thesis
  proof (cases "is_file fs inc")
    case (Inl x)
    with None assms show ?thesis by (auto simp: visit_def step_effect_def)
  next
    case (Inr b)
    show ?thesis
    proof (cases b)
      case True
      show ?thesis
      proof (cases "length (files s @ [inc]) = 1000")
        case full: True
        with None Inr True assms
        have "upload_files py tool (s\<lparr>files := files s @ [inc]\<rparr>) = (e, s1)"
          by (simp add: visit_def Let_def)
        from upload_files_effect [OF this] None full show ?thesis
          by (cases "list_all (encodable py) (files s @ [inc])")
             (simp_all add: step_effect_def)
      next
        case False
        with None Inr True assms show ?thesis
          by (auto simp: visit_def Let_def step_effect_def)
      qed
    next
      case False
      with None Inr assms show ?thesis
        by (auto simp: visit_def step_effect_def log_paths_def
              split: sum.splits bool.splits exn.splits if_splits)
    qed
  qed
qed

lemma walk_body_effect:
  assumes "walk_body py fs tool excludes s = (e, s1)"
  shows "\<exists>inc. step_effect py tool excludes inc s e s1"
proof (cases "resolve fs (last (includes_stack s))")
  case (Inr r)
  with assms have "visit py fs tool excludes r
      (s\<lparr>includes_stack := butlast (includes_stack s), include_var := Some r\<rparr>) = (e, s1)"
    by (simp add: walk_body_def Let_def)
  from visit_effect [OF this] show ?thesis by (auto simp: step_effect_def)
next
  case (Inl x)
  show ?thesis
  proof (cases "x = FileNotFoundError \<and> include_var s \<noteq> None")
    case True
    then obtain stale where st: "include_var s = Some stale" by auto
    show ?thesis
    proof (cases "encodable py stale")
      case enc: True
      with st Inl True assms have "visit py fs tool excludes stale
        (s\<lparr>includes_stack := butlast (includes_stack s),
           logfile := logfile s @ [SkipBrokenLink stale]\<rparr>) = (e, s1)"
        by (simp add: walk_body_def Let_def log_paths_def)
      from visit_effect [OF this] show ?thesis by (auto simp: step_effect_def)
    next
      case False
      with st Inl True assms have "uploads s1 = uploads s \<and> files s1 = files s"
        by (auto simp: walk_body_def Let_def log_paths_def)
      then show ?thesis by (simp add: step_effect_def)
    qed
  next
    case False
    with Inl assms have "uploads s1 = uploads s \<and> files s1 = files s"
      by (cases x) (auto simp: walk_body_def Let_def split: option.splits)
    then show ?thesis by (simp add: step_effect_def)
  qed
qed

lemma walk_rule:
  assumes "walk py n fs tool excludes s = (r, s1)"
    and "P s"
    and "\<And>s s1. P s \<Longrightarrow> includes_stack s \<noteq> [] \<Longrightarrow> walk_body py fs tool excludes s = (None, s1) \<Longrightarrow> P s1"
    and "\<And>s e s1. P s \<Longrightarrow> includes_stack s \<noteq> [] \<Longrightarrow> walk_body py fs tool excludes s = (Some e, s1) \<Longrightarrow> Q e s1"
  shows "case r of Raised e \<Rightarrow> Q e s1 | _ \<Rightarrow> P s1"
  using assms(1,2)
proof (induction n arbitrary: s)
  case 0
  then show ?case by (auto split: if_splits)
next
  case (Suc n)
  show ?case
  proof (cases "includes_stack s = []")
    case True
    with Suc.prems show ?thesis by auto
  next
    case False
    obtain e s' where b: "walk_body py fs tool excludes s = (e, s')"
      by (cases "walk_body py fs tool excludes s")
    show ?thesis
    proof (cases e)
      case None
      with b False Suc.prems have "walk py n fs tool excludes s' = (r, s1)" by simp
      moreover have "P s'" using assms(3) [OF Suc.prems(2) False] b None by simp
      ultimately show ?thesis by (rule Suc.IH)
    next
      case (Some x)
      with b False Suc.prems have "r = Raised x" "s1 = s'" by simp_all
      with assms(4) [OF Suc.prems(2) False] b Some show ?thesis by simp
    qed
  qed
qed

lemma step_effect_batches_ok:
  assumes "step_effect py tool excludes inc s e s1" and "batches_ok py tool excludes None s"
  shows "batches_ok py tool excludes e s1"
proof -
  from assms(2) have f: "length (files s) < 1000"
    and u: "\<forall>b\<in>set (uploads s). length b = 1000"
    and x: "\<forall>p\<in>set (files s) \<union> set (concat (uploads s)). find_exclude excludes p = None"
    and n: "\<forall>i. i < length (uploads s) \<longrightarrow> list_all (encodable py) (uploads s ! i)"
    and t: "\<forall>i. i < length (uploads s) \<longrightarrow> (\<forall>x. tool i (uploads s ! i) \<noteq> Inl x)"
    unfolding batches_ok_def by auto
  consider (a) "uploads s1 = uploads s" "files s1 = files s"
    | (b) "uploads s1 = uploads s" "files s1 = files s @ [inc]" "e = None"
          "find_exclude excludes inc = None" "length (files s1) \<noteq> 1000"
    | (c) "uploads s1 = uploads s @ [files s @ [inc]]" "files s1 = []"
          "find_exclude excludes inc = None" "length (files s @ [inc]) = 1000"
          "list_all (encodable py) (files s @ [inc])"
          "\<forall>x. tool (length (uploads s)) (files s @ [inc]) = Inl x \<longrightarrow> e = Some x"
    | (d) "uploads s1 = uploads s @ [files s @ [inc]]" "files s1 = files s @ [inc]"
          "find_exclude excludes inc = None" "length (files s @ [inc]) = 1000"
          "\<not> list_all (encodable py) (files s @ [inc])" "e = Some UnicodeEncodeError"
    using assms(1) unfolding step_effect_def by (elim disjE conjE) simp_all
  then show ?thesis
  proof cases
    case a
    with f u x n t show ?thesis unfolding batches_ok_def by auto
  next
    case b
    from b(2,5) f have "length (files s1) < 1000" by simp
    moreover from b x
    have "\<forall>p\<in>set (files s1) \<union> set (concat (uploads s1)). find_exclude excludes p = None"
      by auto
    ultimately show ?thesis using b(1) u n t unfolding batches_ok_def by auto
  next
    case c
    have 1: "e = Some x \<and> Suc i = length (uploads s1) \<and> files s1 = []"
      if "i < length (uploads s1)" "tool i (uploads s1 ! i) = Inl x" for i x
    proof (cases "i < length (uploads s)")
      case True
      with t c(1) that show ?thesis by (simp add: nth_append)
    next
      case False
      with that c(1) have "i = length (uploads s)" by simp
      with c that show ?thesis by (simp add: nth_append)
    qed
    have 5: "list_all (encodable py) (uploads s1 ! i)" if "i < length (uploads s1)" for i
    proof (cases "i < length (uploads s)")
      case True
      with n c(1) show ?thesis by (simp add: nth_append)
    next
      case False
      with that c(1) have "i = length (uploads s)" by simp
      with c show ?thesis by (simp add: nth_append)
    qed
    from c u have 2: "\<forall>b\<in>set (uploads s1). length b = 1000" by simp
    from c x
    have 3: "\<forall>p\<in>set (files s1) \<union> set (concat (uploads s1)). find_exclude excludes p = None"
      by auto
    from c have 4: "length (files s1) < 1000" by simp
    from 1 2 3 4 5 show ?thesis unfolding batches_ok_def by blast
  next
    case d
    have 1: "Suc i = length (uploads s1)"
      if "i < length (uploads s1)" "\<not> list_all (encodable py) (uploads s1 ! i)" for i
    proof (cases "i < length (uploads s)")
      case True
      with n d(1) that show ?thesis by (simp add: nth_append)
    next
      case False
      with that d(1) show ?thesis by simp
    qed
    have 5: "\<not> list_all (encodable py) (uploads s1 ! i) \<or> tool i (uploads s1 ! i) \<noteq> Inl x"
      if "i < length (uploads s1)" for i x
    proof (cases "i < length (uploads s)")
      case True
      with t d(1) show ?thesis by (simp add: nth_append)
    next
      case False
      with that d(1) have "i = length (uploads s)" by simp
      with d show ?thesis by (simp add: nth_append)
    qed
    from d u have 2: "\<forall>b\<in>set (uploads s1). length b = 1000" by simp
    from d x
    have 3: "\<forall>p\<in>set (files s1) \<union> set (concat (uploads s1)). find_exclude excludes p = None"
      by auto
    from d have 4: "e = Some UnicodeEncodeError \<and> length (files s1) = 1000" by simp
    from 1 2 3 4 5 show ?thesis unfolding batches_ok_def by blast
  qed
qed

lemma walk_batches_ok:
  assumes "walk py n fs tool excludes s = (r, s1)" and "batches_ok py tool excludes None s"
  shows "batches_ok py tool excludes (raised_of r) s1"
proof -
  have "case r of Raised e \<Rightarrow> batches_ok py tool excludes (Some e) s1
        | _ \<Rightarrow> batches_ok py tool excludes None s1"
  proof (rule walk_rule [OF assms(1), where P = "batches_ok py tool excludes None"
        and Q = "\<lambda>e. batches_ok py tool excludes (Some e)"])
    show "batches_ok py tool excludes None s" by (rule assms(2))
  next
    fix s s1 assume "batches_ok py tool excludes None s" "walk_body py fs tool excludes s = (None, s1)"
    then show "batches_ok py tool excludes None s1"
      using walk_body_effect step_effect_batches_ok by fastforce
  next
    fix s e s1 assume "batches_ok py tool excludes None s" "walk_body py fs tool excludes s = (Some e, s1)"
    then show "batches_ok py tool excludes (Some e) s1"
      using walk_body_effect step_effect_batches_ok by fastforce
  qed
  then show ?thesis by (cases r) (simp_all add: raised_of_def)
qed

lemma init_batches_ok: "batches_ok py tool excludes None (init_state cfg)"
  by (simp add: batches_ok_def init_state_def)

lemma walk_init_batches_ok:
  assumes "walk py fuel fs tool (cfg_excludes cfg) (init_state cfg) = (ow, sw)"
  shows "batches_ok py tool (cfg_excludes cfg) (raised_of ow) sw"
  using walk_batches_ok [OF assms init_batches_ok] .

lemma run_backup_uploads:
  assumes "walk py fuel fs tool (cfg_excludes cfg) (init_state cfg) = (ow, sw)"
  shows "uploads (snd (run_backup py fuel fs tool cfg))
           = uploads sw @ (if ow = Finished \<and> files sw \<noteq> [] then [files sw] else [])
     \<and> set (files (snd (run_backup py fuel fs tool cfg))) \<subseteq> set (files sw)
     \<and> (ow \<noteq> Finished \<longrightarrow> run_backup py fuel fs tool cfg = (ow, sw))
     \<and> (ow = Finished \<and> files sw \<noteq> [] \<and> list_all (encodable py) (files sw) \<longrightarrow>
          files (snd (run_backup py fuel fs tool cfg)) = []
          \<and> (\<forall>x. tool (length (uploads sw)) (files sw) = Inl x \<longrightarrow>
                fst (run_backup py fuel fs tool cfg) = Raised x))
     \<and> (ow = Finished \<and> files sw \<noteq> [] \<and> \<not> list_all (encodable py) (files sw) \<longrightarrow>
          fst (run_backup py fuel fs tool cfg) = Raised UnicodeEncodeError)"
proof (cases "ow = Finished")
  case False
  with assms show ?thesis by (cases ow) (simp_all add: run_backup_def)
next
  case True
  show ?thesis
  proof (cases "files sw = []")
    case e: True
    with True assms show ?thesis by (simp add: run_backup_def flush_files_def finish_log_def)
  next
    case ne: False
    obtain e s2 where u: "upload_files py tool sw = (e, s2)" by (cases "upload_files py tool sw")
    from upload_files_effect [OF u] u ne True assms show ?thesis
      by (cases e; cases "list_all (encodable py) (files sw)")
         (auto simp: run_backup_def flush_files_def finish_log_def)
  qed
qed

subsection \<open>Excludes that match no candidate\<close>

lemma find_exclude_unmatched:
  "unmatched e r \<Longrightarrow> find_exclude (xs @ e # ys) r = find_exclude (xs @ ys) r"
  by (induction xs) (auto simp: unmatched_def)

lemma visit_unmatched:
  "unmatched e r \<Longrightarrow> visit py fs tool (xs @ e # ys) r s = visit py fs tool (xs @ ys) r s"
  by (simp add: visit_def find_exclude_unmatched)

lemma walk_body_unmatched:
  assumes "\<forall>p r. resolve fs p = Inr r \<longrightarrow> unmatched e r"
    and "\<forall>r. include_var s = Some r \<longrightarrow> unmatched e r"
  shows "walk_body py fs tool (xs @ e # ys) s = walk_body py fs tool (xs @ ys) s"
proof (cases "resolve fs (last (includes_stack s))")
  case (Inr r)
  with assms(1) have "unmatched e r" by blast
  with Inr show ?thesis by (simp add: walk_body_def Let_def visit_unmatched)
next
  case (Inl x)
  show ?thesis
  proof (cases "include_var s")
    case None
    with Inl show ?thesis by (cases x) (simp_all add: walk_body_def Let_def)
  next
    case (Some stale)
    with assms(2) have "unmatched e stale" by blast
    with Inl Some show ?thesis
      by (cases x) (simp_all add: walk_body_def Let_def visit_unmatched log_paths_def)
  qed
qed

lemma walk_body_include_var:
  assumes "walk_body py fs tool excludes s = (e, s1)" and "include_var s1 = Some r"
  shows "include_var s = Some r \<or> (\<exists>p. resolve fs p = Inr r)"
proof (cases "resolve fs (last (includes_stack s))")
  case (Inr r')
  with assms(1) have "visit py fs tool excludes r'
      (s\<lparr>includes_stack := butlast (includes_stack s), include_var := Some r'\<rparr>) = (e, s1)"
    by (simp add: walk_body_def Let_def)
  from visit_effect [OF this] assms(2) Inr show ?thesis by auto
next
  case (Inl x)
  show ?thesis
  proof (cases "x = FileNotFoundError \<and> include_var s \<noteq> None")
    case True
    then obtain stale where st: "include_var s = Some stale" by auto
    show ?thesis
    proof (cases "encodable py stale")
      case enc: True
      with st Inl True assms(1) have "visit py fs tool excludes stale
        (s\<lparr>includes_stack := butlast (includes_stack s),
           logfile := logfile s @ [SkipBrokenLink stale]\<rparr>) = (e, s1)"
        by (simp add: walk_body_def Let_def log_paths_def)
      from visit_effect [OF this] assms(2) show ?thesis by auto
    next
      case False
      with st Inl True assms(1) have "include_var s1 = include_var s"
        by (auto simp: walk_body_def Let_def log_paths_def)
      with assms(2) show ?thesis by simp
    qed
  next
    case False
    with Inl assms have "include_var s1 = include_var s"
      by (cases x) (auto simp: walk_body_def Let_def split: option.splits)
    with assms(2) show ?thesis by simp
  qed
qed

lemma walk_unmatched:
  assumes "\<forall>p r. resolve fs p = Inr r \<longrightarrow> unmatched e r"
    and "\<forall>r. include_var s = Some r \<longrightarrow> unmatched e r"
  shows "walk py n fs tool (xs @ e # ys) s = walk py n fs tool (xs @ ys) s"
  using assms(2)
proof (induction n arbitrary: s)
  case 0
  show ?case by simp
next
  case (Suc n)
  have eq: "walk_body py fs tool (xs @ e # ys) s = walk_body py fs tool (xs @ ys) s"
    using assms(1) Suc.prems by (rule walk_body_unmatched)
  obtain x s1 where b: "walk_body py fs tool (xs @ ys) s = (x, s1)"
    by (cases "walk_body py fs tool (xs @ ys) s")
  have "\<forall>r. include_var s1 = Some r \<longrightarrow> unmatched e r"
    using walk_body_include_var [OF b] assms(1) Suc.prems by blast
  from Suc.IH [OF this] eq b show ?case by (cases x) simp_all
qed

subsection \<open>Runs on the small file system\<close>

lemmas eval_simps =
  run_backup_def init_state_def walk_body_def visit_def log_paths_def upload_files_def
  flush_files_def
  finish_log_def process_item_def upload_locals_def scale_size_def scale_step_def
  gt_1024_def div_1024_def format_1f_def round_half_even_def round_to_double_small
  ascii_python_def ascii_path_def
  ascii_int_def strip_def is_space_def digit_val_def parents_def anchored_def
  example_fs_def example_tool_def failing_tool_def data_config_def
  link_excluded_config_def srv_excluded_config_def broken_only_config_def
  file_then_broken_config_def queued_state_def empty_state_def empty_config_def
  record_of_def progress_of_def Let_def

lemma example_canonical:
  "canonical example_fs p \<longleftrightarrow>
     \<not> prefix [''/'', ''broken''] p \<and> \<not> prefix [''/'', ''data'', ''link''] p"
  by (auto simp: canonical_def example_fs_def prefix_def)

lemma example_resolver_ok: "resolver_ok example_fs"
proof -
  have out: "\<not> prefix [''/'', ''broken''] r \<and> \<not> prefix [''/'', ''data'', ''link''] r"
    if "resolve example_fs p = Inr r" for p r
    using that by (auto simp: example_fs_def prefix_def split: if_splits)
  have "canonical example_fs a" if "resolve example_fs p = Inr r" "a \<in> set (parents r)" for p r a
  proof -
    from that(2) have "prefix a r" by (simp add: in_parents_iff strict_prefix_def)
    with out [OF that(1)] show ?thesis
      unfolding example_canonical using prefix_order.trans by blast
  qed
  moreover have "canonical example_fs r" if "resolve example_fs p = Inr r" for p r
    using out [OF that] by (simp add: example_canonical)
  ultimately show ?thesis unfolding resolver_ok_def by blast
qed

lemma example_run:
  "run_backup ascii_python 10 example_fs example_tool data_config
   = (Finished,
      \<lparr>includes_stack = [], include_var = Some [''/'', ''data'', ''a.txt''], files = [],
       logfile = [Starting, Transferred 10000 ''B'' (Some ''10kB/s'') (Some ''data/a.txt''),
                  FinishedSuccessful 1],
       uploads = [[[''/'', ''srv'', ''b.txt''], [''/'', ''data'', ''a.txt'']]],
       files_considered_for_backup = 2, files_backed_up_now = 1,
       files_already_present = 1, files_failed_to_backup = 0\<rparr>)"
  by (simp add: eval_simps eval_nat_numeral)

lemma example_run_excluded:
  "run_backup ascii_python 10 example_fs example_tool srv_excluded_config
   = (Finished,
      \<lparr>includes_stack = [], include_var = Some [''/'', ''data'', ''a.txt''], files = [],
       logfile = [Starting, SkipExcluded [''/'', ''srv''] [''/'', ''srv''],
                  Transferred 10000 ''B'' (Some ''10kB/s'') (Some ''data/a.txt''),
                  FinishedSuccessful 1],
       uploads = [[[''/'', ''data'', ''a.txt'']]],
       files_considered_for_backup = 2, files_backed_up_now = 1,
       files_already_present = 1, files_failed_to_backup = 0\<rparr>)"
  by (simp add: eval_simps eval_nat_numeral)

lemma example_run_failing:
  "run_backup ascii_python 10 example_fs failing_tool data_config
   = (Raised CalledProcessError,
      \<lparr>includes_stack = [], include_var = Some [''/'', ''data'', ''a.txt''], files = [],
       logfile = [Starting],
       uploads = [[[''/'', ''srv'', ''b.txt''], [''/'', ''data'', ''a.txt'']]],
       files_considered_for_backup = 0, files_backed_up_now = 0,
       files_already_present = 0, files_failed_to_backup = 0\<rparr>)"
  by (simp add: eval_simps eval_nat_numeral)

lemma example_upload:
  "upload_files ascii_python example_tool queued_state
   = (None,
      \<lparr>includes_stack = [], include_var = None, files = [],
       logfile = [Starting, Transferred 10000 ''B'' (Some ''10kB/s'') (Some ''data/a.txt'')],
       uploads = [[[''/'', ''data'', ''a.txt'']]],
       files_considered_for_backup = 2, files_backed_up_now = 1,
       files_already_present = 1, files_failed_to_backup = 0\<rparr>)"
  by (simp add: eval_simps)

lemma example_items_first:
  "for_items ascii_python [progress_of ''700'', record_of ''1000'' ''FULL'']
     (upload_locals, empty_state)
   = (None, \<lparr>last_total_transfer_size = 1000, transfer_size = Some 1000\<rparr>,
      \<lparr>includes_stack = [], include_var = None, files = [],
       logfile = [Starting, Transferred 10000 ''B'' (Some ''10kB/s'') (Some ''data/a.txt'')],
       uploads = [],
       files_considered_for_backup = 1, files_backed_up_now = 1,
       files_already_present = 0, files_failed_to_backup = 0\<rparr>)"
  by (simp add: eval_simps)

lemma example_items_second:
  "for_items ascii_python [record_of ''1000'' ''FULL'', record_of ''1500'' ''FILE IN SYNC'']
     (upload_locals, empty_state)
   = (None, \<lparr>last_total_transfer_size = 1500, transfer_size = Some 500\<rparr>,
      \<lparr>includes_stack = [], include_var = None, files = [],
       logfile = [Starting, Transferred 10000 ''B'' (Some ''10kB/s'') (Some ''data/a.txt'')],
       uploads = [],
       files_considered_for_backup = 2, files_backed_up_now = 1,
       files_already_present = 1, files_failed_to_backup = 0\<rparr>)"
  by (simp add: eval_simps)

subsection \<open>A run on the directory of 1001 files\<close>

lemma walk_body_file:
  assumes "resolve fs p = Inr p" and "find_exclude ex p = None" and "is_file fs p = Inr True"
    and "includes_stack s = rest @ [p]"
  shows "walk_body py fs tool ex s =
     (if length (files s) = 999
      then upload_files py tool (s\<lparr>includes_stack := rest, include_var := Some p,
                                  files := files s @ [p]\<rparr>)
      else (None, s\<lparr>includes_stack := rest, include_var := Some p, files := files s @ [p]\<rparr>))"
  using assms by (simp add: walk_body_def visit_def Let_def)

lemma walk_files:
  assumes "\<forall>p\<in>set ps. resolve fs p = Inr p \<and> find_exclude ex p = None \<and> is_file fs p = Inr True"
    and "includes_stack s = rest @ ps" and "length (files s) + length ps < 1000"
  shows "walk py (length ps + m) fs tool ex s =
     walk py m fs tool ex
       (s\<lparr>includes_stack := rest,
          include_var := (if ps = [] then include_var s else Some (hd ps)),
          files := files s @ rev ps\<rparr>)"
  using assms
proof (induction ps arbitrary: s rule: rev_induct)
  case Nil
  then have "rest = includes_stack s" by simp
  then show ?case by simp
next
  case (snoc p qs)
  let ?s1 = "s\<lparr>includes_stack := rest @ qs, include_var := Some p, files := files s @ [p]\<rparr>"
  from snoc.prems have b: "walk_body py fs tool ex s = (None, ?s1)"
    using walk_body_file [of fs p ex s "rest @ qs" py tool] by simp
  from snoc.prems have ne: "includes_stack s \<noteq> []" by simp
  have "walk py (length (qs @ [p]) + m) fs tool ex s = walk py (length qs + m) fs tool ex ?s1"
    using b ne by simp
  also have "\<dots> = walk py m fs tool ex
       (?s1\<lparr>includes_stack := rest,
          include_var := (if qs = [] then include_var ?s1 else Some (hd qs)),
          files := files ?s1 @ rev qs\<rparr>)"
    using snoc.prems by (intro snoc.IH) simp_all
  also have "\<dots> = walk py m fs tool ex
       (s\<lparr>includes_stack := rest,
          include_var := (if qs @ [p] = [] then include_var s else Some (hd (qs @ [p]))),
          files := files s @ rev (qs @ [p])\<rparr>)"
    by (cases qs) simp_all
  finally show ?case .
qed

lemma walk_Suc:
  "includes_stack s \<noteq> [] \<Longrightarrow> walk_body py fs tool ex s = (None, s1) \<Longrightarrow>
     walk py (Suc n) fs tool ex s = walk py n fs tool ex s1"
  by simp

lemma big_children_props:
  "\<forall>p\<in>set big_children.
     resolve big_fs p = Inr p \<and> find_exclude [] p = None \<and> is_file big_fs p = Inr True"
  by (auto simp: big_children_def children_of_def big_fs_def simp del: upt_rec_numeral)

lemma big_children_length: "length big_children = 1001"
  by (simp add: big_children_def children_of_def del: upt_rec_numeral)

lemma list_two_more:
  "length xs = Suc (Suc n) \<Longrightarrow> \<exists>a b ys. xs = a # b # ys \<and> length ys = n"
  by (cases xs; cases "tl xs") auto

lemma big_children_ascii: "list_all ascii_path big_children"
  by (auto simp: big_children_def children_of_def ascii_path_def list_all_iff
        simp del: upt_rec_numeral)

lemma upload_files_quiet:
  "list_all ascii_path (files s) \<Longrightarrow>
     upload_files ascii_python quiet_tool s
       = (None, s\<lparr>files := [], uploads := uploads s @ [files s]\<rparr>)"
  by (simp add: upload_files_def quiet_tool_def ascii_python_def Let_def)

lemma big_walk:
  "walk ascii_python 1002 big_fs quiet_tool [] (init_state big_config) =
     (Finished,
      (init_state big_config)
        \<lparr>includes_stack := [], include_var := Some (hd big_children),
          files := [hd big_children], uploads := [rev (tl big_children)]\<rparr>)"
proof -
  let ?s0 = "init_state big_config"
  let ?s1 = "?s0\<lparr>includes_stack := big_children, include_var := Some [''/'', ''big'']\<rparr>"
  obtain c0 c1 cs where cs: "big_children = c0 # c1 # cs" "length cs = 999"
    using list_two_more [of big_children 999] big_children_length by auto
  let ?s2 = "?s0\<lparr>includes_stack := [c0, c1], include_var := Some (hd cs), files := rev cs\<rparr>"
  let ?s3 = "?s0\<lparr>includes_stack := [c0], include_var := Some c1, files := [],
           uploads := [rev (c1 # cs)]\<rparr>"
  let ?s4 = "?s0\<lparr>includes_stack := [], include_var := Some c0, files := [c0],
           uploads := [rev (c1 # cs)]\<rparr>"
  have props: "\<forall>p\<in>set (c0 # c1 # cs).
     resolve big_fs p = Inr p \<and> find_exclude [] p = None \<and> is_file big_fs p = Inr True"
    using big_children_props cs by simp
  have asc: "list_all ascii_path (c0 # c1 # cs)"
    using big_children_ascii cs(1) by simp
  have ne: "cs \<noteq> []" using cs(2) by auto
  have fuel: "(1002::nat) = Suc (length cs + Suc (Suc 0))" using cs(2) by simp
  have "walk_body ascii_python big_fs quiet_tool [] ?s0 = (None, ?s1)"
    by (simp add: init_state_def big_config_def walk_body_def visit_def big_fs_def Let_def)
  then have 1: "walk ascii_python (Suc (length cs + Suc (Suc 0))) big_fs quiet_tool [] ?s0
      = walk ascii_python (length cs + Suc (Suc 0)) big_fs quiet_tool [] ?s1"
    by (intro walk_Suc) (simp_all add: init_state_def big_config_def)
  have 2: "walk ascii_python (length cs + Suc (Suc 0)) big_fs quiet_tool [] ?s1
      = walk ascii_python (Suc (Suc 0)) big_fs quiet_tool [] ?s2"
  proof -
    have a: "\<forall>p\<in>set cs.
        resolve big_fs p = Inr p \<and> find_exclude [] p = None \<and> is_file big_fs p = Inr True"
      using props by simp
    have b: "includes_stack ?s1 = [c0, c1] @ cs" using cs(1) by simp
    have c: "length (files ?s1) + length cs < 1000" using cs(2) by (simp add: init_state_def)
    have st: "?s1\<lparr>includes_stack := [c0, c1],
          include_var := (if cs = [] then include_var ?s1 else Some (hd cs)),
          files := files ?s1 @ rev cs\<rparr> = ?s2"
      using ne by (simp add: init_state_def)
    show ?thesis
      using walk_files [OF a b c, of ascii_python "Suc (Suc 0)" quiet_tool] unfolding st .
  qed
  have "walk_body ascii_python big_fs quiet_tool [] ?s2 = (None, ?s3)"
    using walk_body_file [of big_fs c1 "[]" ?s2 "[c0]" ascii_python quiet_tool] props cs(2) asc
    by (simp add: upload_files_quiet init_state_def)
  then have 3: "walk ascii_python (Suc (Suc 0)) big_fs quiet_tool [] ?s2
      = walk ascii_python (Suc 0) big_fs quiet_tool [] ?s3"
    by (intro walk_Suc) simp_all
  have "walk_body ascii_python big_fs quiet_tool [] ?s3 = (None, ?s4)"
    using walk_body_file [of big_fs c0 "[]" ?s3 "[]" ascii_python quiet_tool] props
    by (simp add: init_state_def)
  then have 4: "walk ascii_python (Suc 0) big_fs quiet_tool [] ?s3
      = walk ascii_python 0 big_fs quiet_tool [] ?s4"
    by (intro walk_Suc) simp_all
  have 5: "walk ascii_python 0 big_fs quiet_tool [] ?s4 = (Finished, ?s4)" by simp
  have 6: "hd big_children = c0" "tl big_children = c1 # cs" unfolding cs(1) by simp_all
  show ?thesis unfolding 6 fuel 1 2 3 4 5 ..
qed

lemma big_run:
  "uploads (snd (run_backup ascii_python 1002 big_fs quiet_tool big_config))
     = [rev (tl big_children), [hd big_children]]"
proof -
  have "cfg_excludes big_config = []" by (simp add: big_config_def)
  moreover have "list_all ascii_path [hd big_children]"
  proof -
    obtain c0 c1 cs where c: "big_children = c0 # c1 # cs"
      using list_two_more [of big_children 999] big_children_length by auto
    from big_children_ascii show ?thesis unfolding c by simp
  qed
  ultimately show ?thesis
    by (simp add: run_backup_def big_walk flush_files_def upload_files_quiet finish_log_def)
qed

section \<open>The claims on the walker and the uploader\<close>

text \<open>
  Claim C1. Whatever the include roots and the exclude paths, no path that the walker
  has put into the queue of pending files (the queue itself and the batches taken from
  it) equals an exclude path or has one among its ancestors.
\<close>

theorem emitted_paths_not_excluded:
  assumes "run_backup py fuel fs tool cfg = (r, s)"
  shows "\<forall>p\<in>set (concat (uploads s)) \<union> set (files s). \<forall>e\<in>set (cfg_excludes cfg).
           e \<noteq> p \<and> e \<notin> set (parents p) \<and> \<not> (strict_prefix e p \<and> e \<noteq> [])"
proof -
  obtain ow sw where w: "walk py fuel fs tool (cfg_excludes cfg) (init_state cfg) = (ow, sw)"
    by (cases "walk py fuel fs tool (cfg_excludes cfg) (init_state cfg)")
  from walk_init_batches_ok [OF w]
  have ok: "\<forall>p\<in>set (files sw) \<union> set (concat (uploads sw)). find_exclude (cfg_excludes cfg) p = None"
    by (simp add: batches_ok_def)
  from run_backup_uploads [OF w] assms
  have "set (concat (uploads s)) \<union> set (files s) \<subseteq> set (files sw) \<union> set (concat (uploads sw))"
    by (auto split: if_splits)
  with ok have "\<forall>p\<in>set (concat (uploads s)) \<union> set (files s).
      find_exclude (cfg_excludes cfg) p = None"
    by blast
  then show ?thesis
    by (auto simp: find_exclude_None_iff in_parents_iff)
qed

theorem emitted_paths_not_excluded_witness:
  "uploads (snd (run_backup ascii_python 10 example_fs example_tool srv_excluded_config))
     = [[[''/'', ''data'', ''a.txt'']]]
   \<and> [''/'', ''srv''] \<noteq> [''/'', ''data'', ''a.txt'']
   \<and> [''/'', ''srv''] \<notin> set (parents [''/'', ''data'', ''a.txt''])"
proof -
  from emitted_paths_not_excluded [OF example_run_excluded]
  have "[''/'', ''srv''] \<noteq> [''/'', ''data'', ''a.txt'']
      \<and> [''/'', ''srv''] \<notin> set (parents [''/'', ''data'', ''a.txt''])"
    by (simp add: srv_excluded_config_def)
  then show ?thesis by (simp add: example_run_excluded)
qed

text \<open>
  Claim C2. Every batch passed to \<open>upload_files\<close> holds at most 1000 paths, and none is
  empty. The batches passed during the walk hold exactly 1000, the queue holds fewer
  than 1000 whenever the loop tests its condition (it holds 1000 only where the walk
  has ended with the \<open>UnicodeEncodeError\<close> of the list file), and after the walk one
  more batch, the remainder, is passed exactly when that remainder is not empty.
\<close>

theorem batch_sizes:
  assumes "walk py fuel fs tool (cfg_excludes cfg) (init_state cfg) = (ow, sw)"
    and "run_backup py fuel fs tool cfg = (r, s)"
  shows "(\<forall>b\<in>set (uploads s). 0 < length b \<and> length b \<le> 1000)
     \<and> (\<forall>b\<in>set (uploads sw). length b = 1000)
     \<and> (length (files sw) < 1000
          \<or> (ow = Raised UnicodeEncodeError \<and> length (files sw) = 1000))
     \<and> uploads s = uploads sw @ (if ow = Finished \<and> files sw \<noteq> [] then [files sw] else [])"
proof -
  note ok = walk_init_batches_ok [OF assms(1), unfolded batches_ok_def]
  from ok have 1: "\<forall>b\<in>set (uploads sw). length b = 1000" by blast
  from ok have 2: "length (files sw) < 1000
      \<or> (ow = Raised UnicodeEncodeError \<and> length (files sw) = 1000)"
    by (cases ow) (auto simp: raised_of_def)
  from run_backup_uploads [OF assms(1)] assms(2)
  have 3: "uploads s = uploads sw @ (if ow = Finished \<and> files sw \<noteq> [] then [files sw] else [])"
    by simp
  from 1 2 3 have "\<forall>b\<in>set (uploads s). 0 < length b \<and> length b \<le> 1000"
    by (auto split: if_splits)
  with 1 2 3 show ?thesis by blast
qed

theorem batch_sizes_witness:
  "fst (walk ascii_python 1002 big_fs quiet_tool [] (init_state big_config)) = Finished
   \<and> uploads (snd (walk ascii_python 1002 big_fs quiet_tool [] (init_state big_config)))
        = [rev (tl big_children)]
   \<and> length (rev (tl big_children)) = 1000
   \<and> files (snd (walk ascii_python 1002 big_fs quiet_tool [] (init_state big_config))) = [hd big_children]
   \<and> uploads (snd (run_backup ascii_python 1002 big_fs quiet_tool big_config))
        = [rev (tl big_children), [hd big_children]]
   \<and> uploads (snd (run_backup ascii_python 10 example_fs example_tool empty_config)) = []"
proof -
  have x: "cfg_excludes big_config = []" by (simp add: big_config_def)
  have w: "walk ascii_python 1002 big_fs quiet_tool (cfg_excludes big_config) (init_state big_config)
      = (fst (walk ascii_python 1002 big_fs quiet_tool [] (init_state big_config)),
         snd (walk ascii_python 1002 big_fs quiet_tool [] (init_state big_config)))"
    unfolding x by simp
  have r: "run_backup ascii_python 1002 big_fs quiet_tool big_config
      = (fst (run_backup ascii_python 1002 big_fs quiet_tool big_config),
         snd (run_backup ascii_python 1002 big_fs quiet_tool big_config))"
    by simp
  from batch_sizes [OF w r]
  have "\<forall>b\<in>set (uploads (snd (walk ascii_python 1002 big_fs quiet_tool [] (init_state big_config)))).
      length b = 1000"
    by blast
  then have l: "length (rev (tl big_children)) = 1000"
    unfolding big_walk by simp
  have w0: "walk ascii_python 10 example_fs example_tool (cfg_excludes empty_config) (init_state empty_config)
      = (Finished, init_state empty_config)"
    by (simp add: empty_config_def init_state_def eval_nat_numeral)
  have r0: "run_backup ascii_python 10 example_fs example_tool empty_config
      = (fst (run_backup ascii_python 10 example_fs example_tool empty_config),
         snd (run_backup ascii_python 10 example_fs example_tool empty_config))"
    by simp
  from batch_sizes [OF w0 r0]
  have e: "uploads (snd (run_backup ascii_python 10 example_fs example_tool empty_config)) = []"
    by (simp add: init_state_def)
  from l e show ?thesis by (simp add: big_walk big_run)
qed

text \<open>
  Claim C3. (as amended) For every batch response that \<open>upload_files\<close> processes to its
  end, \<open>considered\<close> has grown by the number of records whose \<open>per\<close> attribute is
  \<open>100%\<close>, and the growths of the three other counters add up to that number: each
  complete record counts in exactly one of them, chosen by its transfer type. Where a
  record raises, \<open>considered\<close> has grown by no more than that number, and by the sum of
  the three other growths or by one more.
\<close>

theorem upload_files_counters:
  assumes "tool (length (uploads s)) (files s) = Inr items"
    and "upload_files py tool s = (e, s1)"
    and "c = files_considered_for_backup s1 - files_considered_for_backup s"
    and "b = (files_backed_up_now s1 - files_backed_up_now s)
           + (files_already_present s1 - files_already_present s)
           + (files_failed_to_backup s1 - files_failed_to_backup s)"
  shows "(e = None \<longrightarrow>
            c = int (length (filter complete items)) \<and> b = c
          \<and> files_backed_up_now s1 - files_backed_up_now s
               = int (length (filter (\<lambda>i. complete i \<and> transferred i) items))
          \<and> files_already_present s1 - files_already_present s
               = int (length (filter (\<lambda>i. complete i \<and> \<not> transferred i \<and> in_sync i) items))
          \<and> files_failed_to_backup s1 - files_failed_to_backup s
               = int (length
                   (filter (\<lambda>i. complete i \<and> \<not> transferred i \<and> \<not> in_sync i) items)))
     \<and> c \<le> int (length (filter complete items)) \<and> 0 \<le> b \<and> b \<le> c \<and> c \<le> b + 1"
proof (cases "list_all (encodable py) (files s)")
  case False
  with assms(2) have "e = Some UnicodeEncodeError" "s1 = s\<lparr>uploads := uploads s @ [files s]\<rparr>"
    by (auto simp: upload_files_def Let_def)
  with assms(3,4) show ?thesis by simp
next
  case True
  define s0 where "s0 = s\<lparr>uploads := uploads s @ [files s], files := []\<rparr>"
  from True assms(1,2) obtain l where f: "for_items py items (upload_locals, s0) = (e, l, s1)"
    by (auto simp: upload_files_def Let_def s0_def split: prod.splits)
  from for_items_counters_any [OF f] assms(3,4)
  have any: "c \<le> int (length (filter complete items)) \<and> 0 \<le> b \<and> b \<le> c \<and> c \<le> b + 1"
    by (auto simp: s0_def)
  show ?thesis
  proof (cases e)
    case (Some x)
    with any show ?thesis by simp
  next
    case None
    from for_items_counters [OF f [unfolded None]]
      filter_partition3 [of complete items transferred in_sync] assms(3,4) any None
    show ?thesis by (simp add: s0_def)
  qed
qed

theorem upload_files_counters_witness:
  "example_tool (length (uploads queued_state)) (files queued_state)
     = Inr [progress_of ''700'', record_of ''1000'' ''FULL'', record_of ''1500'' ''FILE IN SYNC'']
   \<and> fst (upload_files ascii_python example_tool queued_state) = None
   \<and> files_considered_for_backup (snd (upload_files ascii_python example_tool queued_state))
       - files_considered_for_backup queued_state = 2
   \<and> files_backed_up_now (snd (upload_files ascii_python example_tool queued_state))
       - files_backed_up_now queued_state = 1
   \<and> files_already_present (snd (upload_files ascii_python example_tool queued_state))
       - files_already_present queued_state = 1
   \<and> files_failed_to_backup (snd (upload_files ascii_python example_tool queued_state))
       - files_failed_to_backup queued_state = 0"
proof -
  let ?s1 = "snd (upload_files ascii_python example_tool queued_state)"
  have t: "example_tool (length (uploads queued_state)) (files queued_state)
     = Inr [progress_of ''700'', record_of ''1000'' ''FULL'', record_of ''1500'' ''FILE IN SYNC'']"
    by (simp add: example_tool_def)
  have u: "upload_files ascii_python example_tool queued_state = (None, ?s1)"
    by (simp add: example_upload)
  have n: "length (filter complete
        [progress_of ''700'', record_of ''1000'' ''FULL'', record_of ''1500'' ''FILE IN SYNC''])
      = 2"
    "length (filter (\<lambda>i. complete i \<and> transferred i)
        [progress_of ''700'', record_of ''1000'' ''FULL'', record_of ''1500'' ''FILE IN SYNC''])
      = 1"
    "length (filter (\<lambda>i. complete i \<and> \<not> transferred i \<and> in_sync i)
        [progress_of ''700'', record_of ''1000'' ''FULL'', record_of ''1500'' ''FILE IN SYNC''])
      = 1"
    "length (filter (\<lambda>i. complete i \<and> \<not> transferred i \<and> \<not> in_sync i)
        [progress_of ''700'', record_of ''1000'' ''FULL'', record_of ''1500'' ''FILE IN SYNC''])
      = 0"
    by (simp_all add: example_complete example_transferred)
  from upload_files_counters [where py = ascii_python and tool = example_tool
      and s = queued_state, OF t u refl refl] have
    "files_considered_for_backup ?s1 - files_considered_for_backup queued_state = 2
     \<and> files_backed_up_now ?s1 - files_backed_up_now queued_state = 1
     \<and> files_already_present ?s1 - files_already_present queued_state = 1
     \<and> files_failed_to_backup ?s1 - files_failed_to_backup queued_state = 0"
    unfolding n by simp
  moreover have "fst (upload_files ascii_python example_tool queued_state) = None"
    by (simp add: example_upload)
  ultimately show ?thesis using t by blast
qed

text \<open>
  A response of three complete records of which the second has no \<open>tottrf_sz\<close>:
  \<open>int(None)\<close> raises \<open>TypeError\<close> and \<open>considered\<close> has grown by one.
\<close>

theorem upload_files_counters_broken:
  "broken_tool (length (uploads queued_state)) (files queued_state) = Inr broken_response
   \<and> length (filter complete broken_response) = 3
   \<and> fst (upload_files ascii_python broken_tool queued_state) = Some TypeError
   \<and> files_considered_for_backup (snd (upload_files ascii_python broken_tool queued_state))
       - files_considered_for_backup queued_state = 1"
  by (simp add: eval_simps broken_tool_def broken_response_def record_without_total_def
        complete_def)

text \<open>
  Claim C4. (as amended) In every batch the size derived for a complete record is its
  cumulative value minus zero when it is the first complete record of the batch, and
  minus the cumulative value of the complete record before it otherwise; it is
  non-negative exactly when the cumulative value has not decreased.
\<close>

theorem transfer_size_difference:
  "(for_items py (mid @ [b]) (upload_locals, s) = (None, l, s')
      \<and> (\<forall>i\<in>set mid. \<not> complete i) \<and> complete b
    \<longrightarrow> (\<exists>t. cumulative py b = Some t \<and> transfer_size l = Some (t - 0)))
   \<and> (for_items py (pre @ [a] @ mid @ [b]) (upload_locals, s) = (None, l, s')
      \<and> complete a \<and> (\<forall>i\<in>set mid. \<not> complete i) \<and> complete b
    \<longrightarrow> (\<exists>ta tb d. cumulative py a = Some ta \<and> cumulative py b = Some tb
           \<and> transfer_size l = Some d \<and> d = tb - ta \<and> (0 \<le> d \<longleftrightarrow> ta \<le> tb)))"
proof (intro conjI impI)
  assume "for_items py (mid @ [b]) (upload_locals, s) = (None, l, s')
      \<and> (\<forall>i\<in>set mid. \<not> complete i) \<and> complete b"
  then show "\<exists>t. cumulative py b = Some t \<and> transfer_size l = Some (t - 0)"
    using for_items_next_size [of py mid b upload_locals s l s']
    by (simp add: upload_locals_def)
next
  assume a: "for_items py (pre @ [a] @ mid @ [b]) (upload_locals, s) = (None, l, s')
      \<and> complete a \<and> (\<forall>i\<in>set mid. \<not> complete i) \<and> complete b"
  then have "for_items py ((pre @ [a]) @ (mid @ [b])) (upload_locals, s) = (None, l, s')"
    by simp
  then obtain lm sm where 1: "for_items py (pre @ [a]) (upload_locals, s) = (None, lm, sm)"
    and 2: "for_items py (mid @ [b]) (lm, sm) = (None, l, s')"
    unfolding for_items_append [of py "pre @ [a]"]
    by (auto split: prod.splits option.splits)
  from for_items_last_total [OF 1] a
  have ta: "cumulative py a = Some (last_total_transfer_size lm)" by simp
  from for_items_next_size [OF 2] a
  obtain tb where "cumulative py b = Some tb"
    "transfer_size l = Some (tb - last_total_transfer_size lm)" by auto
  with ta show "\<exists>ta tb d. cumulative py a = Some ta \<and> cumulative py b = Some tb
           \<and> transfer_size l = Some d \<and> d = tb - ta \<and> (0 \<le> d \<longleftrightarrow> ta \<le> tb)"
    by auto
qed

theorem transfer_size_difference_witness:
  "transfer_size (fst (snd (for_items ascii_python [progress_of ''700'', record_of ''1000'' ''FULL'']
      (upload_locals, empty_state)))) = Some 1000
   \<and> transfer_size (fst (snd (for_items ascii_python
      [record_of ''1000'' ''FULL'', record_of ''1500'' ''FILE IN SYNC'']
      (upload_locals, empty_state)))) = Some 500"
proof -
  note c = example_cumulative
  from transfer_size_difference [of ascii_python "[progress_of ''700'']" "record_of ''1000'' ''FULL''"
      empty_state "\<lparr>last_total_transfer_size = 1000, transfer_size = Some 1000\<rparr>"
      "snd (snd (for_items ascii_python [progress_of ''700'', record_of ''1000'' ''FULL'']
          (upload_locals, empty_state)))"]
  have 1: "transfer_size \<lparr>last_total_transfer_size = 1000, transfer_size = Some 1000\<rparr>
      = Some (1000 - 0)"
    unfolding example_items_first append_Cons append_Nil
    by (simp add: example_items_first example_complete c)
  from transfer_size_difference [of ascii_python "[]" "record_of ''1500'' ''FILE IN SYNC''"
      empty_state "\<lparr>last_total_transfer_size = 1500, transfer_size = Some 500\<rparr>"
      "snd (snd (for_items ascii_python
          [record_of ''1000'' ''FULL'', record_of ''1500'' ''FILE IN SYNC'']
          (upload_locals, empty_state)))" "[]" "record_of ''1000'' ''FULL''"]
  have 2: "transfer_size \<lparr>last_total_transfer_size = 1500, transfer_size = Some 500\<rparr>
      = Some (1500 - 1000)"
    unfolding example_items_second append_Cons append_Nil
    by (simp add: example_items_second example_complete c)
  from 1 2 show ?thesis unfolding example_items_first example_items_second by simp
qed

text \<open>
  The size derived for a record whose cumulative value is smaller than the one before it
  is negative: 1500 followed by 1000 gives -500.
\<close>

theorem transfer_size_negative:
  "transfer_size (fst (snd (for_items ascii_python [record_of ''1500'' ''FULL'', record_of ''1000'' ''FULL'']
      (upload_locals, empty_state)))) = Some (- 500)
   \<and> complete (record_of ''1000'' ''FULL'')"
  by (simp add: eval_simps complete_def)

text \<open>
  Claim C5. (the code departs from it) A candidate whose resolution fails is not skipped.
  When it is the first candidate popped, the handler reads the unbound variable
  \<open>include\<close> and the run ends with \<open>UnboundLocalError\<close>. Otherwise the skip event
  names the candidate of the previous iteration, and that candidate is visited again:
  here the file \<open>/data/a.txt\<close> is queued twice.
\<close>

theorem broken_link_handler_falls_through:
  "fst (run_backup ascii_python 10 example_fs example_tool broken_only_config) = Raised UnboundLocalError
   \<and> uploads (snd (run_backup ascii_python 10 example_fs example_tool file_then_broken_config))
       = [[[''/'', ''data'', ''a.txt''], [''/'', ''data'', ''a.txt'']]]
   \<and> logfile (snd (run_backup ascii_python 10 example_fs example_tool file_then_broken_config)) ! 1
       = SkipBrokenLink [''/'', ''data'', ''a.txt'']"
  by (simp add: eval_simps eval_nat_numeral)

text \<open>
  Claim C9. Excludes are compared as configured and candidates as resolved. On a well
  behaved resolver, an exclude that is not canonical matches no resolved candidate, and
  the run is the same as without that exclude, so the files below its real target are
  queued as if it had not been configured.
\<close>

theorem uncanonical_exclude_never_matches:
  assumes "resolver_ok fs" and "\<not> canonical fs e"
  shows "(\<forall>p r. resolve fs p = Inr r \<longrightarrow> find_exclude [e] r = None)
     \<and> run_backup py fuel fs tool \<lparr>cfg_includes = incs, cfg_excludes = xs @ e # ys\<rparr>
         = run_backup py fuel fs tool \<lparr>cfg_includes = incs, cfg_excludes = xs @ ys\<rparr>"
proof -
  have u: "\<forall>p r. resolve fs p = Inr r \<longrightarrow> unmatched e r"
    using assms unfolding resolver_ok_def unmatched_def by blast
  then have 1: "\<forall>p r. resolve fs p = Inr r \<longrightarrow> find_exclude [e] r = None"
    by (auto simp: unmatched_def)
  have "walk py fuel fs tool (xs @ e # ys) (init_state \<lparr>cfg_includes = incs, cfg_excludes = xs @ e # ys\<rparr>)
      = walk py fuel fs tool (xs @ ys) (init_state \<lparr>cfg_includes = incs, cfg_excludes = xs @ ys\<rparr>)"
    using walk_unmatched [OF u, of "init_state \<lparr>cfg_includes = incs, cfg_excludes = xs @ ys\<rparr>"]
    by (simp add: init_state_def)
  then have 2: "run_backup py fuel fs tool \<lparr>cfg_includes = incs, cfg_excludes = xs @ e # ys\<rparr>
         = run_backup py fuel fs tool \<lparr>cfg_includes = incs, cfg_excludes = xs @ ys\<rparr>"
    by (simp add: run_backup_def)
  from 1 2 show ?thesis by blast
qed

theorem uncanonical_exclude_never_matches_witness:
  "resolver_ok example_fs \<and> \<not> canonical example_fs [''/'', ''data'', ''link'']
   \<and> resolve example_fs [''/'', ''data'', ''link''] = Inr [''/'', ''srv'']
   \<and> find_exclude [[''/'', ''data'', ''link'']] [''/'', ''srv''] = None
   \<and> uploads (snd (run_backup ascii_python 10 example_fs example_tool
        link_excluded_config))
      = [[[''/'', ''srv'', ''b.txt''], [''/'', ''data'', ''a.txt'']]]"
proof -
  have nc: "\<not> canonical example_fs [''/'', ''data'', ''link'']"
    by (simp add: example_canonical)
  have r: "resolve example_fs [''/'', ''data'', ''link''] = Inr [''/'', ''srv'']"
    by (simp add: example_fs_def)
  note t = uncanonical_exclude_never_matches [OF example_resolver_ok nc,
      of ascii_python 10 example_tool "[[''/'', ''data'']]" "[]" "[]"]
  from t r have "find_exclude [[''/'', ''data'', ''link'']] [''/'', ''srv''] = None"
    by blast
  moreover from t have "run_backup ascii_python 10 example_fs example_tool link_excluded_config
      = run_backup ascii_python 10 example_fs example_tool data_config"
    by (simp add: link_excluded_config_def data_config_def)
  then have "uploads (snd (run_backup ascii_python 10 example_fs example_tool link_excluded_config))
      = [[[''/'', ''srv'', ''b.txt''], [''/'', ''data'', ''a.txt'']]]"
    by (simp add: example_run)
  ultimately show ?thesis using example_resolver_ok nc r by blast
qed

text \<open>
  Claim C10. \<open>upload_files\<close> empties the queue before it invokes the tool: when the list
  file has been written, the queue is empty afterwards, whether the tool returns or
  raises. (When the list file cannot be written, the tool is not invoked and the queue
  is left as it is.) In a run, an invocation of the tool that raises is the last call of
  \<open>upload_files\<close>, the run ends with that exception and the queue is empty, so the batch
  is not submitted again.
\<close>

theorem upload_files_clears_queue:
  "(list_all (encodable py) (files s) \<longrightarrow>
      files (snd (upload_files py tool s)) = []
      \<and> uploads (snd (upload_files py tool s)) = uploads s @ [files s]
      \<and> (tool (length (uploads s)) (files s) = Inl e \<longrightarrow>
           upload_files py tool s
             = (Some e, s\<lparr>uploads := uploads s @ [files s], files := []\<rparr>)))
   \<and> (\<not> list_all (encodable py) (files s) \<longrightarrow>
        upload_files py tool s
          = (Some UnicodeEncodeError, s\<lparr>uploads := uploads s @ [files s]\<rparr>))
   \<and> (i < length (uploads (snd (run_backup py fuel fs tool cfg)))
        \<and> list_all (encodable py) (uploads (snd (run_backup py fuel fs tool cfg)) ! i)
        \<and> tool i (uploads (snd (run_backup py fuel fs tool cfg)) ! i) = Inl x \<longrightarrow>
        fst (run_backup py fuel fs tool cfg) = Raised x
        \<and> Suc i = length (uploads (snd (run_backup py fuel fs tool cfg)))
        \<and> files (snd (run_backup py fuel fs tool cfg)) = [])"
proof -
  obtain r s1 where u: "upload_files py tool s = (r, s1)" by (cases "upload_files py tool s")
  from upload_files_effect [OF u] u
  have a: "list_all (encodable py) (files s) \<longrightarrow>
      files (snd (upload_files py tool s)) = []
      \<and> uploads (snd (upload_files py tool s)) = uploads s @ [files s]"
    by simp
  have b: "list_all (encodable py) (files s) \<longrightarrow>
      tool (length (uploads s)) (files s) = Inl e \<longrightarrow>
        upload_files py tool s
          = (Some e, s\<lparr>uploads := uploads s @ [files s], files := []\<rparr>)"
    by (simp add: upload_files_def Let_def)
  have d: "\<not> list_all (encodable py) (files s) \<longrightarrow>
        upload_files py tool s
          = (Some UnicodeEncodeError, s\<lparr>uploads := uploads s @ [files s]\<rparr>)"
    by (simp add: upload_files_def Let_def)
  obtain ow sw where w: "walk py fuel fs tool (cfg_excludes cfg) (init_state cfg) = (ow, sw)"
    by (cases "walk py fuel fs tool (cfg_excludes cfg) (init_state cfg)")
  note ok = walk_init_batches_ok [OF w, unfolded batches_ok_def]
  note ru = run_backup_uploads [OF w]
  let ?R = "run_backup py fuel fs tool cfg"
  have c: "fst ?R = Raised x \<and> Suc i = length (uploads (snd ?R)) \<and> files (snd ?R) = []"
    if i: "i < length (uploads (snd ?R))"
      and n: "list_all (encodable py) (uploads (snd ?R) ! i)"
      and x: "tool i (uploads (snd ?R) ! i) = Inl x"
  proof (cases "i < length (uploads sw)")
    case True
    with ru x n have xi: "tool i (uploads sw ! i) = Inl x"
      and ni: "list_all (encodable py) (uploads sw ! i)"
      by (simp_all add: nth_append)
    with ok True have rs: "raised_of ow = Some x" and l: "Suc i = length (uploads sw)"
      and f: "files sw = []"
      by blast+
    from rs have ow: "ow = Raised x" by (cases ow) (simp_all add: raised_of_def)
    with ru have "?R = (ow, sw)" by simp
    with ow f l show ?thesis by simp
  next
    case False
    with i ru have fin: "ow = Finished" "files sw \<noteq> []" and il: "i = length (uploads sw)"
      by (auto split: if_splits)
    with ru x n have "tool (length (uploads sw)) (files sw) = Inl x"
      "list_all (encodable py) (files sw)" by simp_all
    with fin ru il show ?thesis by simp
  qed
  from a b c d show ?thesis by blast
qed

theorem upload_files_clears_queue_witness:
  "list_all (encodable ascii_python) (files queued_state)
   \<and> failing_tool (length (uploads queued_state)) (files queued_state)
       = Inl CalledProcessError
   \<and> upload_files ascii_python failing_tool queued_state
       = (Some CalledProcessError,
          queued_state\<lparr>uploads := [[[''/'', ''data'', ''a.txt'']]], files := []\<rparr>)
   \<and> upload_files ascii_python failing_tool unencodable_state
       = (Some UnicodeEncodeError,
          unencodable_state\<lparr>uploads := [[[''/'', ''data'', [CHR 0xFF]]]]\<rparr>)
   \<and> failing_tool 0 (uploads (snd (run_backup ascii_python 10 example_fs failing_tool
        data_config)) ! 0) = Inl CalledProcessError
   \<and> fst (run_backup ascii_python 10 example_fs failing_tool data_config)
       = Raised CalledProcessError
   \<and> length (uploads (snd (run_backup ascii_python 10 example_fs failing_tool data_config)))
       = Suc 0
   \<and> files (snd (run_backup ascii_python 10 example_fs failing_tool data_config)) = []"
proof -
  have t: "failing_tool (length (uploads queued_state)) (files queued_state)
      = Inl CalledProcessError"
    by (simp add: failing_tool_def)
  have q: "uploads queued_state = []" "files queued_state = [[''/'', ''data'', ''a.txt'']]"
    "list_all (encodable ascii_python) (files queued_state)"
    by (simp_all add: queued_state_def empty_state_def empty_config_def init_state_def
          ascii_python_def ascii_path_def)
  have n: "uploads unencodable_state = []"
    "files unencodable_state = [[''/'', ''data'', [CHR 0xFF]]]"
    "\<not> list_all (encodable ascii_python) (files unencodable_state)"
    by (simp_all add: unencodable_state_def empty_state_def empty_config_def init_state_def
          ascii_python_def ascii_path_def)
  have g: "list_all (encodable ascii_python)
      [[''/'', ''srv'', ''b.txt''], [''/'', ''data'', ''a.txt'']]"
    by (simp add: ascii_python_def ascii_path_def)
  from upload_files_clears_queue [where py = ascii_python and tool = failing_tool
      and s = queued_state and e = CalledProcessError and i = 0 and x = CalledProcessError
      and fuel = 10 and fs = example_fs and cfg = data_config] t q g
  have 1: "upload_files ascii_python failing_tool queued_state
       = (Some CalledProcessError,
          queued_state\<lparr>uploads := [[[''/'', ''data'', ''a.txt'']]], files := []\<rparr>)
   \<and> fst (run_backup ascii_python 10 example_fs failing_tool data_config)
       = Raised CalledProcessError
   \<and> length (uploads (snd (run_backup ascii_python 10 example_fs failing_tool data_config)))
       = Suc 0
   \<and> files (snd (run_backup ascii_python 10 example_fs failing_tool data_config)) = []"
    by (simp add: example_run_failing failing_tool_def)
  from upload_files_clears_queue [where py = ascii_python and tool = failing_tool
      and s = unencodable_state] n
  have 2: "upload_files ascii_python failing_tool unencodable_state
       = (Some UnicodeEncodeError,
          unencodable_state\<lparr>uploads := [[[''/'', ''data'', [CHR 0xFF]]]]\<rparr>)"
    by simp
  from 1 2 t q(3) show ?thesis by (simp add: example_run_failing failing_tool_def)
qed

end
